theory Spec2Isabelle
  imports Main
begin

section \<open>Values, keys and host exceptions\<close>

text \<open>
  The library is a promise layer over the browser's IndexedDB interface. The records it
  stores are JavaScript objects; a property holds a number, a string or a boolean
  (numbers are restricted to integers here). Reading a property that is absent yields
  \<open>undefined\<close>, modelled as \<open>None\<close>.
\<close>

datatype val = VNum int | VStr string | VBool bool

type_synonym obj = "(string \<times> val) list"

definition getProp :: "obj \<Rightarrow> string \<Rightarrow> val option" where
  "getProp data p = map_of data p"

text \<open>Valid IndexedDB keys (\<open>IDBValidKey\<close>): numbers and strings.\<close>

datatype key = KNum int | KStr string

fun val_of_key :: "key \<Rightarrow> val" where
  "val_of_key (KNum n) = VNum n"
| "val_of_key (KStr s) = VStr s"

fun key_of_val :: "val \<Rightarrow> key option" where
  "key_of_val (VNum n) = Some (KNum n)"
| "key_of_val (VStr s) = Some (KStr s)"
| "key_of_val (VBool b) = None"

text \<open>
  The host orders keys of different types: every number is below every string; strings
  compare by code unit, lexicographically.
\<close>

fun str_less :: "string \<Rightarrow> string \<Rightarrow> bool" where
  "str_less [] [] = False"
| "str_less [] (y # ys) = True"
| "str_less (x # xs) [] = False"
| "str_less (x # xs) (y # ys) =
     ((of_char x :: nat) < of_char y \<or> (x = y \<and> str_less xs ys))"

fun key_less :: "key \<Rightarrow> key \<Rightarrow> bool" where
  "key_less (KNum a) (KNum b) = (a < b)"
| "key_less (KNum a) (KStr b) = True"
| "key_less (KStr a) (KNum b) = False"
| "key_less (KStr a) (KStr b) = str_less a b"

text \<open>
  Template literals print a key: a string as it is, an integer in decimal.
\<close>

definition digit_char :: "nat \<Rightarrow> char" where
  "digit_char d =
     (if d = 0 then CHR ''0'' else if d = 1 then CHR ''1'' else if d = 2 then CHR ''2''
      else if d = 3 then CHR ''3'' else if d = 4 then CHR ''4'' else if d = 5 then CHR ''5''
      else if d = 6 then CHR ''6'' else if d = 7 then CHR ''7'' else if d = 8 then CHR ''8''
      else CHR ''9'')"

function show_nat :: "nat \<Rightarrow> string" where
  "show_nat n = (if n < 10 then [digit_char n] else show_nat (n div 10) @ [digit_char (n mod 10)])"
  by pat_completeness auto
termination
  by (relation "measure (\<lambda>n. n)") auto

definition show_int :: "int \<Rightarrow> string" where
  "show_int i = (if i < 0 then CHR ''-'' # show_nat (nat (- i)) else show_nat (nat i))"

fun show_key :: "key \<Rightarrow> string" where
  "show_key (KNum n) = show_int n"
| "show_key (KStr s) = s"

text \<open>
  What the host raises or reports on a failed request is a \<open>DOMException\<close> with a name and
  a message. The message texts are the host's own; the library only forwards them.
\<close>

datatype dom_exception = DOMException (exn_name: string) (message: string)

text \<open>
  The error classes of the library. \<open>IndexedDBError\<close> carries its message (its code is
  left undefined by every use in the library); the three subclasses fix their code.
  A host exception that reaches the caller unwrapped is \<open>HostException\<close>.
\<close>

datatype error =
    IndexedDBError string
  | DatabaseNotFoundError string
  | StoreNotFoundError string
  | TransactionError string
  | HostException dom_exception

fun error_message :: "error \<Rightarrow> string" where
  "error_message (IndexedDBError m) = m"
| "error_message (DatabaseNotFoundError dbName) = ''Database \"'' @ dbName @ ''\" not found''"
| "error_message (StoreNotFoundError storeName) = ''Object store \"'' @ storeName @ ''\" not found''"
| "error_message (TransactionError m) = m"
| "error_message (HostException e) = message e"

fun error_code :: "error \<Rightarrow> string option" where
  "error_code (IndexedDBError m) = None"
| "error_code (DatabaseNotFoundError dbName) = Some ''DB_NOT_FOUND''"
| "error_code (StoreNotFoundError storeName) = Some ''STORE_NOT_FOUND''"
| "error_code (TransactionError m) = Some ''TRANSACTION_ERROR''"
| "error_code (HostException e) = None"

text \<open>
  \<open>request.error?.message || fallback\<close>: an empty message is falsy, so the fallback text
  is used for it.
\<close>

definition orElse :: "string \<Rightarrow> string \<Rightarrow> string" where
  "orElse m fallback = (if m = [] then fallback else m)"

text \<open>
  A promise has settled with a value, settled with an error, or never settles.
\<close>

datatype 'a promise = Resolved 'a | Rejected error | Pending

section \<open>The host's object store\<close>

text \<open>
  An object store handle inside an active read-write transaction. The records are held
  in ascending key order. An index has one property as its key path (compound and
  multi-entry indexes are left out). \<open>keyGenerator\<close> is the current number of the key generator of
  an auto-increment store. \<open>faults\<close> is the schedule of host failures: every request
  event takes the head of the list, and \<open>Some e\<close> there makes the request fire its
  error event with \<open>e\<close>. \<open>aborted\<close> is set when a request error has aborted the
  enclosing transaction; the host then discards what the transaction wrote.
\<close>

record idbIndex =
  idx_name :: string
  idx_keyPath :: string
  idx_unique :: bool

record objectStore =
  name :: string
  keyPath :: "string option"
  autoIncrement :: bool
  keyGenerator :: int
  records :: "(key \<times> obj) list"
  indexes :: "idbIndex list"
  faults :: "dom_exception option list"
  aborted :: bool

text \<open>
  A call on the host either throws at once, or returns a request that later fires its
  error event or its success event.
\<close>

datatype 'a request = Threw dom_exception | Failed dom_exception | Succeeded 'a

definition next_event :: "objectStore \<Rightarrow> dom_exception option \<times> objectStore" where
  "next_event s = (case faults s of
       [] \<Rightarrow> (None, s)
     | f # fs \<Rightarrow> (f, s\<lparr>faults := fs\<rparr>))"

definition abort :: "objectStore \<Rightarrow> objectStore" where
  "abort s = s\<lparr>aborted := True\<rparr>"

subsection \<open>Read requests\<close>

text \<open>
  \<open>store.get(key)\<close> and \<open>store.getAll()\<close>: the request fires its error event when the
  host fails, and otherwise succeeds with the record under the key (\<open>undefined\<close> when
  there is none), or with all records in key order.
\<close>

definition idb_get :: "objectStore \<Rightarrow> key \<Rightarrow> obj option request \<times> objectStore" where
  "idb_get s k = (case next_event s of
       (Some e, s') \<Rightarrow> (Failed e, abort s')
     | (None, s') \<Rightarrow> (Succeeded (map_of (records s') k), s'))"

definition idb_getAll :: "objectStore \<Rightarrow> obj list request \<times> objectStore" where
  "idb_getAll s = (case next_event s of
       (Some e, s') \<Rightarrow> (Failed e, abort s')
     | (None, s') \<Rightarrow> (Succeeded (map snd (records s')), s'))"

record keyRange =
  lower :: "key option"
  upper :: "key option"
  lowerOpen :: bool
  upperOpen :: bool

definition in_range :: "keyRange \<Rightarrow> key \<Rightarrow> bool" where
  "in_range r k =
     ((case lower r of None \<Rightarrow> True
        | Some l \<Rightarrow> if lowerOpen r then key_less l k else (key_less l k \<or> l = k)) \<and>
      (case upper r of None \<Rightarrow> True
        | Some u \<Rightarrow> if upperOpen r then key_less k u else (key_less k u \<or> u = k)))"

definition idb_count :: "objectStore \<Rightarrow> keyRange option \<Rightarrow> nat request \<times> objectStore" where
  "idb_count s rng = (case next_event s of
       (Some e, s') \<Rightarrow> (Failed e, abort s')
     | (None, s') \<Rightarrow>
         (Succeeded (case rng of
                 None \<Rightarrow> length (records s')
               | Some r \<Rightarrow> length (filter (\<lambda>kv. in_range r (fst kv)) (records s'))), s'))"

subsection \<open>Cursors\<close>

text \<open>
  An index holds the records that have a valid key at the index's key path, ordered by
  that key and, among equal index keys, by primary key. The records of the store are
  already in primary-key order, so a stable insertion sort by index key gives the order
  of the index.
\<close>

definition index_key :: "idbIndex \<Rightarrow> obj \<Rightarrow> key option" where
  "index_key idx data = (case getProp data (idx_keyPath idx) of
       None \<Rightarrow> None
     | Some v \<Rightarrow> key_of_val v)"

fun insert_entry :: "key \<times> obj \<Rightarrow> (key \<times> obj) list \<Rightarrow> (key \<times> obj) list" where
  "insert_entry x [] = [x]"
| "insert_entry x (y # ys) =
     (if key_less (fst y) (fst x) then y # insert_entry x ys else x # y # ys)"

fun index_entries :: "idbIndex \<Rightarrow> (key \<times> obj) list \<Rightarrow> (key \<times> obj) list" where
  "index_entries idx [] = []"
| "index_entries idx ((k, data) # rest) =
     (case index_key idx data of
        None \<Rightarrow> index_entries idx rest
      | Some ik \<Rightarrow> insert_entry (ik, data) (index_entries idx rest))"

text \<open>The \<open>unique\<close> directions visit, for every key, only its first record.\<close>

fun first_of_each_key :: "(key \<times> obj) list \<Rightarrow> (key \<times> obj) list" where
  "first_of_each_key [] = []"
| "first_of_each_key [x] = [x]"
| "first_of_each_key (x # y # ys) =
     (if fst x = fst y then first_of_each_key (x # ys) else x # first_of_each_key (y # ys))"

datatype direction = Next | NextUnique | Prev | PrevUnique

fun traverse :: "direction \<Rightarrow> (key \<times> obj) list \<Rightarrow> obj list" where
  "traverse Next es = map snd es"
| "traverse NextUnique es = map snd (first_of_each_key es)"
| "traverse Prev es = rev (map snd es)"
| "traverse PrevUnique es = rev (map snd (first_of_each_key es))"

text \<open>
  \<open>store.index(name)\<close> throws a \<open>NotFoundError\<close> when the store has no index of that
  name.
\<close>

definition idb_index :: "objectStore \<Rightarrow> string \<Rightarrow> dom_exception + idbIndex" where
  "idb_index s nm = (case find (\<lambda>i. idx_name i = nm) (indexes s) of
       None \<Rightarrow> Inl (DOMException ''NotFoundError'' ''The specified index was not found.'')
     | Some i \<Rightarrow> Inr i)"

text \<open>
  Every exception of the host is a \<open>DOMException\<close>, whose prototype inherits from
  \<open>Error\<close>.
\<close>

definition instanceof_Error :: "dom_exception \<Rightarrow> bool" where
  "instanceof_Error e = True"

subsection \<open>Write requests\<close>

text \<open>
  \<open>store.add(value)\<close> and \<open>store.put(value)\<close> are called without a key argument. The
  call itself finds where the key comes from and throws a \<open>DataError\<close> when there is
  none: a store with a key path takes the key from that property of the value (which
  must hold a valid key), and a store with a key generator makes one up when the value
  brings none.
\<close>

datatype key_source = Explicit key | Generate

definition DataError :: dom_exception where
  "DataError = DOMException ''DataError'' ''The object store could not obtain a valid key for the value.''"

definition extract_key :: "objectStore \<Rightarrow> obj \<Rightarrow> dom_exception + key_source" where
  "extract_key s data = (case keyPath s of
       None \<Rightarrow> if autoIncrement s then Inr Generate else Inl DataError
     | Some p \<Rightarrow>
         (case getProp data p of
            None \<Rightarrow> if autoIncrement s then Inr Generate else Inl DataError
          | Some v \<Rightarrow>
              (case key_of_val v of
                 None \<Rightarrow> Inl DataError
               | Some k \<Rightarrow> Inr (Explicit k))))"

text \<open>
  The request then stores the record. A generated key is the generator's current number,
  which grows by one (a generator beyond \<open>2^53\<close> fails); in a store with a key path the
  generated key is written into the value. An explicit numeric key moves the generator
  past it. \<open>add\<close> fails with a \<open>ConstraintError\<close> when the key is taken, and both fail
  with one when a unique index already holds the value's index key under another
  primary key.
\<close>

definition ConstraintError_key :: dom_exception where
  "ConstraintError_key = DOMException ''ConstraintError'' ''Key already exists in the object store.''"

definition ConstraintError_index :: "string \<Rightarrow> dom_exception" where
  "ConstraintError_index nm = DOMException ''ConstraintError''
     (''Unable to add key to index '' @ nm @ '': at least one key does not satisfy the uniqueness requirements.'')"

definition ConstraintError_generator :: dom_exception where
  "ConstraintError_generator = DOMException ''ConstraintError'' ''The key generator has run out of keys.''"

definition inject_key :: "string option \<Rightarrow> key \<Rightarrow> obj \<Rightarrow> obj" where
  "inject_key kp k data = (case kp of
       None \<Rightarrow> data
     | Some p \<Rightarrow> data @ [(p, val_of_key k)])"

definition update_generator :: "objectStore \<Rightarrow> key \<Rightarrow> objectStore" where
  "update_generator s k = (case k of
       KNum n \<Rightarrow>
         if autoIncrement s \<and> keyGenerator s \<le> min n (2 ^ 53)
         then s\<lparr>keyGenerator := min n (2 ^ 53) + 1\<rparr>
         else s
     | KStr str \<Rightarrow> s)"

definition has_key :: "objectStore \<Rightarrow> key \<Rightarrow> bool" where
  "has_key s k = (k \<in> set (map fst (records s)))"

definition clashes :: "idbIndex \<Rightarrow> key \<Rightarrow> obj \<Rightarrow> (key \<times> obj) list \<Rightarrow> bool" where
  "clashes idx k data recs = (idx_unique idx \<and>
     (case index_key idx data of
        None \<Rightarrow> False
      | Some ik \<Rightarrow> list_ex (\<lambda>kv. fst kv \<noteq> k \<and> index_key idx (snd kv) = Some ik) recs))"

definition violated_index :: "objectStore \<Rightarrow> key \<Rightarrow> obj \<Rightarrow> idbIndex option" where
  "violated_index s k data = find (\<lambda>idx. clashes idx k data (records s)) (indexes s)"

definition put_record :: "key \<Rightarrow> obj \<Rightarrow> (key \<times> obj) list \<Rightarrow> (key \<times> obj) list" where
  "put_record k data recs = insert_entry (k, data) (filter (\<lambda>kv. fst kv \<noteq> k) recs)"

definition store_with_key ::
  "objectStore \<Rightarrow> key \<Rightarrow> obj \<Rightarrow> bool \<Rightarrow> key request \<times> objectStore" where
  "store_with_key s k data no_overwrite =
     (if no_overwrite \<and> has_key s k then (Failed ConstraintError_key, abort s)
      else (case violated_index s k data of
              Some idx \<Rightarrow> (Failed (ConstraintError_index (idx_name idx)), abort s)
            | None \<Rightarrow> (Succeeded k, s\<lparr>records := put_record k data (records s)\<rparr>)))"

definition store_record ::
  "objectStore \<Rightarrow> key_source \<Rightarrow> obj \<Rightarrow> bool \<Rightarrow> key request \<times> objectStore" where
  "store_record s ks data no_overwrite = (case next_event s of
       (Some e, s') \<Rightarrow> (Failed e, abort s')
     | (None, s') \<Rightarrow>
         (case ks of
            Generate \<Rightarrow>
              if 2 ^ 53 < keyGenerator s' then (Failed ConstraintError_generator, abort s')
              else store_with_key (s'\<lparr>keyGenerator := keyGenerator s' + 1\<rparr>)
                     (KNum (keyGenerator s'))
                     (inject_key (keyPath s') (KNum (keyGenerator s')) data) no_overwrite
          | Explicit k \<Rightarrow> store_with_key (update_generator s' k) k data no_overwrite))"

definition idb_add :: "objectStore \<Rightarrow> obj \<Rightarrow> key request \<times> objectStore" where
  "idb_add s data = (case extract_key s data of
       Inl e \<Rightarrow> (Threw e, s)
     | Inr ks \<Rightarrow> store_record s ks data True)"

definition idb_put :: "objectStore \<Rightarrow> obj \<Rightarrow> key request \<times> objectStore" where
  "idb_put s data = (case extract_key s data of
       Inl e \<Rightarrow> (Threw e, s)
     | Inr ks \<Rightarrow> store_record s ks data False)"

text \<open>\<open>store.delete(key)\<close> and \<open>store.clear()\<close>.\<close>

definition idb_delete :: "objectStore \<Rightarrow> key \<Rightarrow> unit request \<times> objectStore" where
  "idb_delete s k = (case next_event s of
       (Some e, s') \<Rightarrow> (Failed e, abort s')
     | (None, s') \<Rightarrow> (Succeeded (), s'\<lparr>records := filter (\<lambda>kv. fst kv \<noteq> k) (records s')\<rparr>))"

definition idb_clear :: "objectStore \<Rightarrow> unit request \<times> objectStore" where
  "idb_clear s = (case next_event s of
       (Some e, s') \<Rightarrow> (Failed e, abort s')
     | (None, s') \<Rightarrow> (Succeeded (), s'\<lparr>records := []\<rparr>))"

text \<open>
  \<open>cursor.update(value)\<close> at the record with primary key \<open>pk\<close>. In a store with a key
  path the call throws a \<open>DataError\<close> unless the value holds \<open>pk\<close> at the key path; the
  request then overwrites the record under \<open>pk\<close>.
\<close>

definition cursor_update :: "objectStore \<Rightarrow> key \<Rightarrow> obj \<Rightarrow> key request \<times> objectStore" where
  "cursor_update s pk data = (case keyPath s of
       None \<Rightarrow>
         (case next_event s of
            (Some e, s') \<Rightarrow> (Failed e, abort s')
          | (None, s') \<Rightarrow> store_with_key s' pk data False)
     | Some p \<Rightarrow>
         if getProp data p = Some (val_of_key pk)
         then (case next_event s of
                 (Some e, s') \<Rightarrow> (Failed e, abort s')
               | (None, s') \<Rightarrow> store_with_key s' pk data False)
         else (Threw DataError, s))"

section \<open>Record operations\<close>

subsection \<open>getObjectData, getAllObjectData, countObjectData\<close>

definition getObjectData :: "objectStore \<Rightarrow> key \<Rightarrow> obj option promise \<times> objectStore" where
  "getObjectData store k = (case idb_get store k of
       (Succeeded result, s') \<Rightarrow> (Resolved result, s')
     | (Failed e, s') \<Rightarrow>
         (Rejected (IndexedDBError (orElse (message e) ''Failed to retrieve data'')), s')
     | (Threw e, s') \<Rightarrow> (Rejected (HostException e), s'))"

definition getAllObjectData :: "objectStore \<Rightarrow> obj list promise \<times> objectStore" where
  "getAllObjectData store = (case idb_getAll store of
       (Succeeded result, s') \<Rightarrow> (Resolved result, s')
     | (Failed e, s') \<Rightarrow>
         (Rejected (IndexedDBError (orElse (message e) ''Failed to retrieve all data'')), s')
     | (Threw e, s') \<Rightarrow> (Rejected (HostException e), s'))"

definition countObjectData :: "objectStore \<Rightarrow> keyRange option \<Rightarrow> nat promise \<times> objectStore" where
  "countObjectData store rng = (case idb_count store rng of
       (Succeeded result, s') \<Rightarrow> (Resolved result, s')
     | (Failed e, s') \<Rightarrow>
         (Rejected (IndexedDBError (orElse (message e) ''Count failed'')), s')
     | (Threw e, s') \<Rightarrow> (Rejected (HostException e), s'))"

subsection \<open>queryObjectData\<close>

record QueryOptions =
  index :: "string option"
  direction :: "direction option"
  limit :: "int option"
  offset :: "int option"

text \<open>
  \<open>limit && counted >= limit\<close>: an absent limit is falsy, and so is the number zero.
\<close>

definition limit_reached :: "int option \<Rightarrow> nat \<Rightarrow> bool" where
  "limit_reached lim counted = (case lim of
       None \<Rightarrow> False
     | Some l \<Rightarrow> l \<noteq> 0 \<and> l \<le> int counted)"

text \<open>
  The \<open>onsuccess\<close> handler of the cursor request, run once for every event of the
  request: \<open>entries\<close> are the records the cursor has still to visit (none left: the
  cursor is null), \<open>skipped\<close>, \<open>counted\<close> and \<open>results\<close> are the handler's variables.
\<close>

fun queryLoop ::
  "int option \<Rightarrow> int \<Rightarrow> obj list \<Rightarrow> nat \<Rightarrow> nat \<Rightarrow> obj list \<Rightarrow> objectStore
     \<Rightarrow> obj list promise \<times> objectStore" where
  "queryLoop lim off [] skipped counted results s =
     (case next_event s of
        (Some e, s') \<Rightarrow> (Rejected (IndexedDBError (orElse (message e) ''Query failed'')), abort s')
      | (None, s') \<Rightarrow> (Resolved results, s'))"
| "queryLoop lim off (v # rest) skipped counted results s =
     (case next_event s of
        (Some e, s') \<Rightarrow> (Rejected (IndexedDBError (orElse (message e) ''Query failed'')), abort s')
      | (None, s') \<Rightarrow>
          if int skipped < off then queryLoop lim off rest (skipped + 1) counted results s'
          else if limit_reached lim counted then (Resolved results, s')
          else queryLoop lim off rest skipped (counted + 1) (results @ [v]) s')"

text \<open>
  The source of the traversal: the named index when \<open>index\<close> is a non-empty string (the
  empty string is falsy), the store itself otherwise.
\<close>

definition cursor_source :: "objectStore \<Rightarrow> QueryOptions \<Rightarrow> dom_exception + (key \<times> obj) list" where
  "cursor_source store options = (case index options of
       None \<Rightarrow> Inr (records store)
     | Some nm \<Rightarrow>
         if nm = [] then Inr (records store)
         else (case idb_index store nm of
                 Inl e \<Rightarrow> Inl e
               | Inr idx \<Rightarrow> Inr (index_entries idx (records store))))"

definition queryObjectData :: "objectStore \<Rightarrow> QueryOptions \<Rightarrow> obj list promise \<times> objectStore" where
  "queryObjectData store options =
     (let dir = (case direction options of None \<Rightarrow> Next | Some d \<Rightarrow> d);
          off = (case offset options of None \<Rightarrow> 0 | Some n \<Rightarrow> n)
      in case cursor_source store options of
           Inl e \<Rightarrow>
             (Rejected (IndexedDBError
                (if instanceof_Error e then message e else ''Query setup failed'')), store)
         | Inr es \<Rightarrow> queryLoop (limit options) off (traverse dir es) 0 0 [] store)"

subsection \<open>addObjectData, putObjectData\<close>

text \<open>
  An exception thrown inside the executor of \<open>new Promise\<close> rejects the promise with the
  exception itself.
\<close>

definition addObjectData :: "objectStore \<Rightarrow> obj \<Rightarrow> obj list promise \<times> objectStore" where
  "addObjectData store data = (case idb_add store data of
       (Succeeded k, s') \<Rightarrow> getAllObjectData s'
     | (Failed e, s') \<Rightarrow>
         (Rejected (IndexedDBError (orElse (message e) ''Failed to add data to store'')), s')
     | (Threw e, s') \<Rightarrow> (Rejected (HostException e), s'))"

definition putObjectData :: "objectStore \<Rightarrow> obj \<Rightarrow> key promise \<times> objectStore" where
  "putObjectData store data = (case idb_put store data of
       (Succeeded k, s') \<Rightarrow> (Resolved k, s')
     | (Failed e, s') \<Rightarrow> (Rejected (IndexedDBError (orElse (message e) ''Failed to put data'')), s')
     | (Threw e, s') \<Rightarrow> (Rejected (HostException e), s'))"

subsection \<open>bulkAddObjectData\<close>

text \<open>
  \<open>forEach\<close> calls \<open>store.add\<close> for every element before any request fires an event. A
  call that throws ends the loop (and rejects the promise with the exception); the
  requests issued before it stay with the host.
\<close>

fun issue_adds :: "objectStore \<Rightarrow> obj list \<Rightarrow> (key_source \<times> obj) list \<times> dom_exception option" where
  "issue_adds s [] = ([], None)"
| "issue_adds s (data # rest) = (case extract_key s data of
       Inl e \<Rightarrow> ([], Some e)
     | Inr ks \<Rightarrow> (case issue_adds s rest of (reqs, thrown) \<Rightarrow> ((ks, data) # reqs, thrown)))"

text \<open>
  The host then serves the requests in order. A request that succeeds runs its
  \<open>onsuccess\<close> handler, which stores the key at the request's index. The first request
  that fails runs its \<open>onerror\<close> handler and aborts the transaction, and no later request
  stores anything.
\<close>

fun process_adds ::
  "(key_source \<times> obj) list \<Rightarrow> nat \<Rightarrow> objectStore
     \<Rightarrow> (dom_exception \<times> nat + key list) \<times> objectStore" where
  "process_adds [] i s = (Inr [], s)"
| "process_adds ((ks, data) # rest) i s = (case store_record s ks data True of
       (Succeeded k, s') \<Rightarrow>
         (case process_adds rest (i + 1) s' of
            (Inr keys, s'') \<Rightarrow> (Inr (k # keys), s'')
          | (Inl failure, s'') \<Rightarrow> (Inl failure, s''))
     | (Failed e, s') \<Rightarrow> (Inl (e, i), s')
     | (Threw e, s') \<Rightarrow> (Inl (e, i), s'))"

definition bulkAddObjectData :: "objectStore \<Rightarrow> obj list \<Rightarrow> key list promise \<times> objectStore" where
  "bulkAddObjectData store dataArray =
     (if length dataArray = 0 then (Resolved [], store)
      else (case issue_adds store dataArray of
              (reqs, thrown) \<Rightarrow>
                (case process_adds reqs 0 store of
                   (served, s') \<Rightarrow>
                     (case thrown of
                        Some e \<Rightarrow> (Rejected (HostException e), s')
                      | None \<Rightarrow>
                          (case served of
                             Inl (e, i) \<Rightarrow>
                               (Rejected (IndexedDBError
                                  (orElse (message e) (''Failed to add item at index '' @ show_nat i))), s')
                           | Inr keys \<Rightarrow> (Resolved keys, s'))))))"

subsection \<open>updateObjectData\<close>

text \<open>\<open>data[keyPath] === key\<close>, for a key that is a string or a number.\<close>

definition matches :: "obj \<Rightarrow> string \<Rightarrow> key \<Rightarrow> bool" where
  "matches data kp k = (getProp data kp = Some (val_of_key k))"

text \<open>
  The \<open>onsuccess\<close> handler of the cursor request. \<open>entries\<close> are the records the cursor
  has still to visit. An exception thrown by \<open>cursor.update\<close> leaves the handler
  uncaught: the host aborts the transaction and nothing settles the promise.
\<close>

fun updateLoop ::
  "(key \<times> obj) list \<Rightarrow> bool \<Rightarrow> string \<Rightarrow> key \<Rightarrow> obj \<Rightarrow> objectStore
     \<Rightarrow> obj list promise \<times> objectStore" where
  "updateLoop [] found kp k newData s = (case next_event s of
       (Some e, s') \<Rightarrow>
         (Rejected (IndexedDBError (orElse (message e) ''Cursor operation failed'')), abort s')
     | (None, s') \<Rightarrow>
         if \<not> found
         then (Rejected (IndexedDBError
                 (''Failed to locate object for update with '' @ kp @ ''='' @ show_key k)), s')
         else (Pending, s'))"
| "updateLoop ((pk, v) # rest) found kp k newData s = (case next_event s of
       (Some e, s') \<Rightarrow>
         (Rejected (IndexedDBError (orElse (message e) ''Cursor operation failed'')), abort s')
     | (None, s') \<Rightarrow>
         if matches v kp k
         then (case cursor_update s' pk newData of
                 (Succeeded r, s'') \<Rightarrow> getAllObjectData s''
               | (Failed e, s'') \<Rightarrow>
                   (Rejected (IndexedDBError (orElse (message e) ''Update operation failed'')), s'')
               | (Threw e, s'') \<Rightarrow> (Pending, abort s''))
         else updateLoop rest found kp k newData s')"

definition updateObjectData ::
  "objectStore \<Rightarrow> string \<Rightarrow> key \<Rightarrow> obj \<Rightarrow> obj list promise \<times> objectStore" where
  "updateObjectData store kp k newData = (case getAllObjectData store of
       (Resolved allData, s') \<Rightarrow>
         (case find (\<lambda>data. matches data kp k) allData of
            None \<Rightarrow>
              (Rejected (IndexedDBError
                 (''There's no object in the '' @ name store @ '' whose '' @ kp @ '' matches ''
                    @ show_key k @ ''.'')), s')
          | Some target \<Rightarrow> updateLoop (records s') False kp k newData s')
     | (Rejected e, s') \<Rightarrow> (Rejected e, s')
     | (Pending, s') \<Rightarrow> (Pending, s'))"

subsection \<open>deleteObjectData, clearObjectStore\<close>

definition deleteObjectData ::
  "objectStore \<Rightarrow> key \<Rightarrow> (obj \<times> obj list) promise \<times> objectStore" where
  "deleteObjectData store k = (case getObjectData store k of
       (Resolved None, s1) \<Rightarrow>
         (Rejected (IndexedDBError
            (''Object with key \"'' @ show_key k @ ''\" not found in store \"'' @ name store @ ''\"'')), s1)
     | (Resolved (Some deletedObject), s1) \<Rightarrow>
         (case idb_delete s1 k of
            (Succeeded u, s2) \<Rightarrow>
              (case getAllObjectData s2 of
                 (Resolved allData, s3) \<Rightarrow> (Resolved (deletedObject, allData), s3)
               | (Rejected e, s3) \<Rightarrow> (Rejected e, s3)
               | (Pending, s3) \<Rightarrow> (Pending, s3))
          | (Failed e, s2) \<Rightarrow>
              (Rejected (IndexedDBError (orElse (message e) ''Delete operation failed'')), s2)
          | (Threw e, s2) \<Rightarrow>
              (Rejected (IndexedDBError
                 (''Failed to retrieve object before deletion: '' @ message e)), s2))
     | (Rejected e, s1) \<Rightarrow>
         (Rejected (IndexedDBError
            (''Failed to retrieve object before deletion: '' @ error_message e)), s1)
     | (Pending, s1) \<Rightarrow> (Pending, s1))"

definition clearObjectStore :: "objectStore \<Rightarrow> unit promise \<times> objectStore" where
  "clearObjectStore store = (case idb_clear store of
       (Succeeded u, s') \<Rightarrow> (Resolved (), s')
     | (Failed e, s') \<Rightarrow>
         (Rejected (IndexedDBError (orElse (message e) ''Clear operation failed'')), s')
     | (Threw e, s') \<Rightarrow> (Rejected (HostException e), s'))"

section \<open>Databases, connections and transactions of the host\<close>

text \<open>
  A database of the host has a version and its object stores, and the host knows how
  many connections to it are open. The factory \<open>indexedDB\<close> holds the databases by name;
  \<open>supported\<close> is what \<open>isIndexedDBSupported()\<close> finds. The object stores of a database
  are at rest; a transaction takes handles of them, and the database takes a store back
  as the transaction leaves it.
\<close>

record database =
  version :: nat
  objectStores :: "objectStore list"
  connections :: nat

record idbFactory =
  supported :: bool
  databases :: "(string \<times> database) list"

text \<open>An \<open>IDBDatabase\<close>: an open connection to the database of that name.\<close>

record connection =
  conn_name :: string

definition lookup_db :: "idbFactory \<Rightarrow> string \<Rightarrow> database option" where
  "lookup_db h nm = map_of (databases h) nm"

fun put_db :: "(string \<times> database) list \<Rightarrow> string \<Rightarrow> database \<Rightarrow> (string \<times> database) list" where
  "put_db [] nm d = [(nm, d)]"
| "put_db ((n, x) # rest) nm d = (if n = nm then (nm, d) # rest else (n, x) # put_db rest nm d)"

definition update_db :: "idbFactory \<Rightarrow> string \<Rightarrow> database \<Rightarrow> idbFactory" where
  "update_db h nm d = h\<lparr>databases := put_db (databases h) nm d\<rparr>"

definition find_store :: "objectStore list \<Rightarrow> string \<Rightarrow> objectStore option" where
  "find_store ss nm = find (\<lambda>s. name s = nm) ss"

fun replace_store :: "objectStore list \<Rightarrow> objectStore \<Rightarrow> objectStore list" where
  "replace_store [] s' = []"
| "replace_store (s # ss) s' = (if name s = name s' then s' # ss else s # replace_store ss s')"

text \<open>
  A transaction: the names in its scope, its mode, the handles of the stores of the
  scope, and whether it has finished (committed or aborted). A new transaction has not
  been aborted: its handles start with \<open>aborted\<close> false.
\<close>

datatype transactionMode = ReadOnly | ReadWrite | VersionChange

record idbTransaction =
  scope :: "string list"
  mode :: transactionMode
  tx_stores :: "objectStore list"
  finished :: bool

text \<open>
  \<open>db.transaction(stores, mode)\<close> throws when the list of names is empty, when a name
  is not an object store of the database, and for the mode \<open>versionchange\<close>. A single
  store name is the list of that one name.
\<close>

definition idb_transaction ::
  "idbFactory \<Rightarrow> connection \<Rightarrow> string list \<Rightarrow> transactionMode \<Rightarrow> dom_exception + idbTransaction" where
  "idb_transaction h c storeNames m = (case lookup_db h (conn_name c) of
       None \<Rightarrow> Inl (DOMException ''InvalidStateError'' ''The database connection is closing.'')
     | Some d \<Rightarrow>
         if storeNames = []
         then Inl (DOMException ''InvalidAccessError'' ''The storeNames parameter was empty.'')
         else if list_ex (\<lambda>nm. find_store (objectStores d) nm = None) storeNames
         then Inl (DOMException ''NotFoundError'' ''One of the specified object stores was not found.'')
         else if m = VersionChange
         then Inl (DOMException ''TypeError'' ''The mode provided is not a valid enum value.'')
         else Inr \<lparr>scope = storeNames, mode = m,
                   tx_stores = map (\<lambda>s. s\<lparr>aborted := False\<rparr>)
                     (filter (\<lambda>s. name s \<in> set storeNames) (objectStores d)),
                   finished = False\<rparr>)"

text \<open>
  \<open>tx.objectStore(name)\<close> throws an \<open>InvalidStateError\<close> on a finished transaction and a
  \<open>NotFoundError\<close> for a name outside the scope.
\<close>

definition idb_objectStore :: "idbTransaction \<Rightarrow> string \<Rightarrow> dom_exception + objectStore" where
  "idb_objectStore t nm =
     (if finished t then Inl (DOMException ''InvalidStateError'' ''The transaction has finished.'')
      else if nm \<in> set (scope t)
      then (case find_store (tx_stores t) nm of
              None \<Rightarrow> Inl (DOMException ''NotFoundError'' ''The specified object store was not found.'')
            | Some s \<Rightarrow> Inr s)
      else Inl (DOMException ''NotFoundError'' ''The specified object store was not found.''))"

section \<open>The transaction helper\<close>

text \<open>
  \<open>transaction(dbObject, stores, mode)\<close> opens the host's transaction (an exception of
  the host passes through) and wraps it. \<open>getStore\<close> turns any \<open>Error\<close> thrown by
  \<open>tx.objectStore\<close> into a \<open>StoreNotFoundError\<close>. \<open>abort\<close> finishes the transaction.
\<close>

definition transaction ::
  "idbFactory \<Rightarrow> connection \<Rightarrow> string list \<Rightarrow> transactionMode \<Rightarrow> dom_exception + idbTransaction" where
  "transaction h dbObject storeNames m = idb_transaction h dbObject storeNames m"

definition getStore :: "idbTransaction \<Rightarrow> string \<Rightarrow> objectStore promise" where
  "getStore t nm = (case idb_objectStore t nm of
       Inr store \<Rightarrow> Resolved store
     | Inl e \<Rightarrow>
         Rejected (if instanceof_Error e then StoreNotFoundError nm
                   else TransactionError ''Failed to access object store''))"

text \<open>
  \<open>commit\<close> installs the handlers of the transaction's signals and settles with the
  first that comes. A transaction that has finished already signals nothing any more.
  Otherwise the transaction completes, or one of its requests fails (the error event
  reaches \<open>tx.onerror\<close> with \<open>tx.error\<close>, still null while the event of a request
  bubbles), or \<open>abort\<close> is called.
\<close>

datatype transaction_fate = Completes | RequestFails "dom_exception option" | AbortCalled

definition commit :: "idbTransaction \<Rightarrow> transaction_fate \<Rightarrow> unit promise" where
  "commit t fate =
     (if finished t then Pending
      else (case fate of
              Completes \<Rightarrow> Resolved ()
            | RequestFails txError \<Rightarrow>
                Rejected (TransactionError
                  (orElse (case txError of None \<Rightarrow> [] | Some e \<Rightarrow> message e) ''Transaction failed''))
            | AbortCalled \<Rightarrow> Rejected (TransactionError ''Transaction was aborted'')))"

definition abort_transaction :: "idbTransaction \<Rightarrow> idbTransaction" where
  "abort_transaction t = t\<lparr>finished := True\<rparr>"

section \<open>createDB\<close>

text \<open>
  An initial record has the type \<open>{ id: string | number; [key: string]: any }\<close>: an \<open>id\<close>
  that is a string or a number, and its other properties. \<open>item_value\<close> is the record as
  the object that \<open>objectStore.add\<close> receives.
\<close>

record dataItem =
  item_id :: key
  item_fields :: obj

definition item_value :: "dataItem \<Rightarrow> obj" where
  "item_value item = (''id'', val_of_key (item_id item)) # item_fields item"

text \<open>
  The configuration of an object store (\<open>IDBStoreConfig\<close>): its name, the key path and
  the auto-increment flag of \<open>config\<close>, the indices and the initial records \<open>data\<close>
  (absent indices or data are the empty list). A key path is the name of a property.
\<close>

record IDBStoreConfig =
  cfg_name :: string
  cfg_keyPath :: "string option"
  cfg_autoIncrement :: bool
  cfg_indices :: "idbIndex list"
  cfg_data :: "dataItem list"

subsection \<open>Opening a database\<close>

text \<open>
  \<open>indexedDB.open(name, version)\<close>. Version zero makes the call throw. A version below
  the database's fails the request with a \<open>VersionError\<close>. A version above it (a database
  that does not exist yet has version zero) needs an upgrade: while another connection
  is open the request is blocked (what the host does once the other connections close
  is not followed); otherwise the \<open>upgradeneeded\<close> handler runs, and when
  the upgrade transaction aborts, the request fails with an \<open>AbortError\<close> and the database
  stays as it was. On success the database has the version asked for and one more open
  connection.
\<close>

datatype open_result =
    OpenThrew dom_exception
  | OpenError dom_exception
  | OpenBlocked
  | OpenSuccess connection

definition idb_open ::
  "idbFactory \<Rightarrow> string \<Rightarrow> nat \<Rightarrow> (objectStore list \<Rightarrow> dom_exception + objectStore list)
     \<Rightarrow> open_result \<times> idbFactory" where
  "idb_open h nm ver upgradeneeded =
     (if ver = 0
      then (OpenThrew (DOMException ''TypeError'' ''The version provided must not be 0.''), h)
      else (case lookup_db h nm of
              None \<Rightarrow>
                (case upgradeneeded [] of
                   Inl e \<Rightarrow> (OpenError (DOMException ''AbortError'' ''Version change transaction was aborted in upgradeneeded event handler.''), h)
                 | Inr ss \<Rightarrow>
                     (OpenSuccess \<lparr>conn_name = nm\<rparr>,
                      update_db h nm \<lparr>version = ver, objectStores = ss, connections = 1\<rparr>))
            | Some d \<Rightarrow>
                if ver < version d
                then (OpenError (DOMException ''VersionError'' ''The requested version is less than the existing version.''), h)
                else if version d < ver
                then (if 0 < connections d then (OpenBlocked, h)
                      else (case upgradeneeded (objectStores d) of
                              Inl e \<Rightarrow> (OpenError (DOMException ''AbortError'' ''Version change transaction was aborted in upgradeneeded event handler.''), h)
                            | Inr ss \<Rightarrow>
                                (OpenSuccess \<lparr>conn_name = nm\<rparr>,
                                 update_db h nm \<lparr>version = ver, objectStores = ss, connections = 1\<rparr>)))
                else (OpenSuccess \<lparr>conn_name = nm\<rparr>,
                      update_db h nm (d\<lparr>connections := connections d + 1\<rparr>))))"

subsection \<open>The upgrade handler\<close>

text \<open>
  \<open>createIndex\<close> on a store whose records already clash in a unique index aborts the
  upgrade transaction.
\<close>

definition index_keys :: "idbIndex \<Rightarrow> (key \<times> obj) list \<Rightarrow> key list" where
  "index_keys idx recs = List.map_filter (\<lambda>kv. index_key idx (snd kv)) recs"

definition idb_createIndex :: "objectStore \<Rightarrow> idbIndex \<Rightarrow> dom_exception + objectStore" where
  "idb_createIndex s idx =
     (if idx_unique idx \<and> \<not> distinct (index_keys idx (records s))
      then Inl (ConstraintError_index (idx_name idx))
      else Inr (s\<lparr>indexes := indexes s @ [idx]\<rparr>))"

definition idb_createObjectStore :: "IDBStoreConfig \<Rightarrow> objectStore" where
  "idb_createObjectStore cfg =
     \<lparr>name = cfg_name cfg, keyPath = cfg_keyPath cfg, autoIncrement = cfg_autoIncrement cfg,
      keyGenerator = 1, records = [], indexes = [], faults = [], aborted = False\<rparr>"

text \<open>
  \<open>store.indices.forEach\<close>: an index is created unless the store has one of that name.
\<close>

fun create_indices :: "idbIndex list \<Rightarrow> objectStore \<Rightarrow> dom_exception + objectStore" where
  "create_indices [] s = Inr s"
| "create_indices (indexConfig # rest) s =
     (if list_ex (\<lambda>i. idx_name i = idx_name indexConfig) (indexes s)
      then create_indices rest s
      else (case idb_createIndex s indexConfig of
              Inl e \<Rightarrow> Inl e
            | Inr s' \<Rightarrow> create_indices rest s'))"

text \<open>
  \<open>stores.forEach\<close>: a store is created unless the database has one of that name, in
  which case the existing store is taken; then its indices are created.
\<close>

fun onupgradeneeded :: "IDBStoreConfig list \<Rightarrow> objectStore list \<Rightarrow> dom_exception + objectStore list" where
  "onupgradeneeded [] ss = Inr ss"
| "onupgradeneeded (cfg # rest) ss =
     (case find_store ss (cfg_name cfg) of
        None \<Rightarrow>
          (case create_indices (cfg_indices cfg) (idb_createObjectStore cfg) of
             Inl e \<Rightarrow> Inl e
           | Inr s' \<Rightarrow> onupgradeneeded rest (ss @ [s']))
      | Some s \<Rightarrow>
          (case create_indices (cfg_indices cfg) s of
             Inl e \<Rightarrow> Inl e
           | Inr s' \<Rightarrow> onupgradeneeded rest (replace_store ss s')))"

subsection \<open>Seeding\<close>

text \<open>
  A transaction that a failed request has aborted leaves the store as it was before the
  transaction (the host's schedule of failures has moved on all the same); any other
  transaction commits what it wrote.
\<close>

definition end_transaction :: "objectStore \<Rightarrow> objectStore \<Rightarrow> objectStore" where
  "end_transaction start final =
     (if aborted final then start\<lparr>faults := faults final\<rparr> else final)"

definition write_store :: "idbFactory \<Rightarrow> connection \<Rightarrow> objectStore \<Rightarrow> idbFactory" where
  "write_store h c s = (case lookup_db h (conn_name c) of
       None \<Rightarrow> h
     | Some d \<Rightarrow> update_db h (conn_name c) (d\<lparr>objectStores := replace_store (objectStores d) s\<rparr>))"

text \<open>
  The body of the loop over the stores with data, on the handle of the store in its own
  read-write transaction: fetch the existing records, collect their \<open>id\<close>s, call
  \<open>objectStore.add\<close> for the items whose \<open>id\<close> is not among them, and wait for the
  transaction. A failed \<open>getAll\<close> rejects with the host's error; an \<open>add\<close> call that throws
  leaves the loop with the exception, while the requests issued before it stay with the
  host; a failed \<open>add\<close> request reaches \<open>tx.onerror\<close>, where \<open>tx.error\<close> is still null.
  \<open>existingIds.has(item.id)\<close> looks for the \<open>id\<close> of an initial record, a string or a
  number, which a \<open>Set\<close> compares by value, among the \<open>id\<close>s of the stored records
  (\<open>undefined\<close>, here \<open>None\<close>, for a stored record without \<open>id\<close>). A stored \<open>id\<close> of
  another kind (an array, a date) is equal to no string and no number; the values of
  the model leave such \<open>id\<close>s out.
\<close>

definition existing_ids :: "obj list \<Rightarrow> val option list" where
  "existing_ids existingData = map (\<lambda>item. getProp item ''id'') existingData"

definition seedStore :: "objectStore \<Rightarrow> dataItem list \<Rightarrow> error option \<times> objectStore" where
  "seedStore store items = (case idb_getAll store of
       (Failed e, s1) \<Rightarrow> (Some (HostException e), end_transaction store s1)
     | (Threw e, s1) \<Rightarrow> (Some (HostException e), end_transaction store s1)
     | (Succeeded existingData, s1) \<Rightarrow>
         (case issue_adds s1
                 (map item_value
                    (filter (\<lambda>item. Some (val_of_key (item_id item)) \<notin> set (existing_ids existingData))
                       items)) of
            (reqs, thrown) \<Rightarrow>
              (case process_adds reqs 0 s1 of
                 (served, s2) \<Rightarrow>
                   (case thrown of
                      Some e \<Rightarrow> (Some (HostException e), end_transaction store s2)
                    | None \<Rightarrow>
                        (case served of
                           Inl failure \<Rightarrow>
                             (Some (TransactionError (orElse [] ''Transaction failed'')),
                              end_transaction store s2)
                         | Inr keys \<Rightarrow> (None, end_transaction store s2))))))"

text \<open>
  The loop over the stores with data. \<open>db.transaction\<close> throws for a store the database
  does not have. The first error ends the loop.
\<close>

fun seed_stores ::
  "idbFactory \<Rightarrow> connection \<Rightarrow> IDBStoreConfig list \<Rightarrow> error option \<times> idbFactory" where
  "seed_stores h c [] = (None, h)"
| "seed_stores h c (cfg # rest) =
     (case idb_transaction h c [cfg_name cfg] ReadWrite of
        Inl e \<Rightarrow> (Some (HostException e), h)
      | Inr t \<Rightarrow>
          (case idb_objectStore t (cfg_name cfg) of
             Inl e \<Rightarrow> (Some (HostException e), h)
           | Inr store \<Rightarrow>
               (case seedStore store (cfg_data cfg) of
                  (Some err, s') \<Rightarrow> (Some err, write_store h c s')
                | (None, s') \<Rightarrow> seed_stores (write_store h c s') c rest)))"

subsection \<open>createDB\<close>

text \<open>
  Every error of the library and every exception of the host is an \<open>Error\<close>, so the
  \<open>catch\<close> of the success handler rejects with the error it caught.
\<close>

definition error_instanceof_Error :: "error \<Rightarrow> bool" where
  "error_instanceof_Error e = True"

text \<open>The configurations that carry initial records.\<close>

definition storesWithData :: "IDBStoreConfig list \<Rightarrow> IDBStoreConfig list" where
  "storesWithData cfgs = filter (\<lambda>cfg. 0 < length (cfg_data cfg)) cfgs"

text \<open>
  \<open>createDB\<close> throws when IndexedDB is not supported (\<open>Inl\<close>), and otherwise returns the
  promise of the connection.
\<close>

definition createDB ::
  "idbFactory \<Rightarrow> string \<Rightarrow> nat \<Rightarrow> IDBStoreConfig list
     \<Rightarrow> (error + connection promise) \<times> idbFactory" where
  "createDB h nm ver storeConfigs =
     (if \<not> supported h
      then (Inl (IndexedDBError ''IndexedDB is not supported in this browser!''), h)
      else (case idb_open h nm ver (onupgradeneeded storeConfigs) of
              (OpenThrew e, h') \<Rightarrow> (Inr (Rejected (HostException e)), h')
            | (OpenError e, h') \<Rightarrow>
                (Inr (Rejected (IndexedDBError (orElse (message e) ''Failed to open database''))), h')
            | (OpenBlocked, h') \<Rightarrow>
                (Inr (Rejected (IndexedDBError ''Database open request was blocked'')), h')
            | (OpenSuccess c, h') \<Rightarrow>
                if length storeConfigs = 0 then (Inr (Resolved c), h')
                else if length (storesWithData storeConfigs) = 0
                then (Inr (Resolved c), h')
                else (case seed_stores h' c (storesWithData storeConfigs) of
                        (None, h'') \<Rightarrow> (Inr (Resolved c), h'')
                      | (Some err, h'') \<Rightarrow>
                          (Inr (Rejected (if error_instanceof_Error err then err
                                          else IndexedDBError ''Unknown error occurred'')), h''))))"

text \<open>\<open>openDB\<close> opens the database without an upgrade handler.\<close>

definition openDB :: "idbFactory \<Rightarrow> string \<Rightarrow> nat \<Rightarrow> (error + connection promise) \<times> idbFactory" where
  "openDB h nm ver =
     (if \<not> supported h
      then (Inl (IndexedDBError ''IndexedDB is not supported in this browser!''), h)
      else (case idb_open h nm ver Inr of
              (OpenThrew e, h') \<Rightarrow> (Inr (Rejected (HostException e)), h')
            | (OpenError e, h') \<Rightarrow>
                (Inr (Rejected (IndexedDBError (orElse (message e) ''Failed to open database''))), h')
            | (OpenBlocked, h') \<Rightarrow>
                (Inr (Rejected (IndexedDBError ''Database open request was blocked'')), h')
            | (OpenSuccess c, h') \<Rightarrow> (Inr (Resolved c), h')))"

section \<open>The class IndexedDBUtil\<close>

text \<open>
  The state of an instance: the name, version and store configurations given to the
  constructor, and the connection, \<open>null\<close> (\<open>None\<close>) until \<open>init\<close> has resolved.
\<close>

record IndexedDBUtil =
  dbName :: string
  dbVersion :: nat
  db :: "connection option"
  stores :: "IDBStoreConfig list"

definition new_IndexedDBUtil :: "string \<Rightarrow> nat \<Rightarrow> IDBStoreConfig list \<Rightarrow> IndexedDBUtil" where
  "new_IndexedDBUtil nm ver cfgs = \<lparr>dbName = nm, dbVersion = ver, db = None, stores = cfgs\<rparr>"

text \<open>
  \<open>init\<close> is an \<open>async\<close> method: what \<open>createDB\<close> throws rejects its promise. The
  connection is assigned only when \<open>createDB\<close> resolves.
\<close>

definition init :: "IndexedDBUtil \<Rightarrow> idbFactory \<Rightarrow> unit promise \<times> IndexedDBUtil \<times> idbFactory" where
  "init u h =
     (if \<not> supported h
      then (Rejected (IndexedDBError ''IndexedDB is not supported in this browser!''), u, h)
      else (case createDB h (dbName u) (dbVersion u) (stores u) of
              (Inl err, h') \<Rightarrow> (Rejected err, u, h')
            | (Inr (Resolved c), h') \<Rightarrow> (Resolved (), u\<lparr>db := Some c\<rparr>, h')
            | (Inr (Rejected err), h') \<Rightarrow> (Rejected err, u, h')
            | (Inr Pending, h') \<Rightarrow> (Pending, u, h')))"

definition getDB :: "IndexedDBUtil \<Rightarrow> error + connection" where
  "getDB u = (case db u of
       None \<Rightarrow> Inl (IndexedDBError ''Database not initialized. Call init() first.'')
     | Some c \<Rightarrow> Inr c)"

text \<open>The method \<open>transaction\<close>; an exception of the host passes through.\<close>

definition util_transaction ::
  "IndexedDBUtil \<Rightarrow> idbFactory \<Rightarrow> string list \<Rightarrow> transactionMode \<Rightarrow> error + idbTransaction" where
  "util_transaction u h storeNames m = (case getDB u of
       Inl err \<Rightarrow> Inl err
     | Inr c \<Rightarrow>
         (case transaction h c storeNames m of
            Inl e \<Rightarrow> Inl (HostException e)
          | Inr t \<Rightarrow> Inr t))"

text \<open>
  Every record method has one shape: open a transaction on the one store, get the
  store from it, run the record operation, and, in the methods that write, wait for
  \<open>tx.commit()\<close> (no request is pending then). What is thrown on the way rejects the method's promise. When the
  operation has settled or hangs, the host ends the transaction and the database takes
  the store as the transaction leaves it.
\<close>

definition run_in_store ::
  "IndexedDBUtil \<Rightarrow> idbFactory \<Rightarrow> string \<Rightarrow> transactionMode \<Rightarrow> bool
     \<Rightarrow> (objectStore \<Rightarrow> 'a promise \<times> objectStore) \<Rightarrow> 'a promise \<times> idbFactory" where
  "run_in_store u h storeName m awaitCommit operation =
     (case getDB u of
        Inl err \<Rightarrow> (Rejected err, h)
      | Inr c \<Rightarrow>
          (case transaction h c [storeName] m of
             Inl e \<Rightarrow> (Rejected (HostException e), h)
           | Inr t \<Rightarrow>
               (case getStore t storeName of
                  Rejected err \<Rightarrow> (Rejected err, h)
                | Pending \<Rightarrow> (Pending, h)
                | Resolved store \<Rightarrow>
                    (case operation store of
                       (Resolved result, store') \<Rightarrow>
                         (if awaitCommit
                          then (case commit t (if aborted store' then RequestFails None else Completes) of
                                  Resolved done \<Rightarrow> Resolved result
                                | Rejected err \<Rightarrow> Rejected err
                                | Pending \<Rightarrow> Pending)
                          else Resolved result,
                          write_store h c (end_transaction store store'))
                     | (Rejected err, store') \<Rightarrow>
                         (Rejected err, write_store h c (end_transaction store store'))
                     | (Pending, store') \<Rightarrow>
                         (Pending, write_store h c (end_transaction store store'))))))"

definition get :: "IndexedDBUtil \<Rightarrow> idbFactory \<Rightarrow> string \<Rightarrow> key \<Rightarrow> obj option promise \<times> idbFactory" where
  "get u h storeName k = run_in_store u h storeName ReadOnly False (\<lambda>store. getObjectData store k)"

definition getAll :: "IndexedDBUtil \<Rightarrow> idbFactory \<Rightarrow> string \<Rightarrow> obj list promise \<times> idbFactory" where
  "getAll u h storeName = run_in_store u h storeName ReadOnly False getAllObjectData"

definition query ::
  "IndexedDBUtil \<Rightarrow> idbFactory \<Rightarrow> string \<Rightarrow> QueryOptions \<Rightarrow> obj list promise \<times> idbFactory" where
  "query u h storeName options =
     run_in_store u h storeName ReadOnly False (\<lambda>store. queryObjectData store options)"

definition count ::
  "IndexedDBUtil \<Rightarrow> idbFactory \<Rightarrow> string \<Rightarrow> keyRange option \<Rightarrow> nat promise \<times> idbFactory" where
  "count u h storeName rng =
     run_in_store u h storeName ReadOnly False (\<lambda>store. countObjectData store rng)"

definition add :: "IndexedDBUtil \<Rightarrow> idbFactory \<Rightarrow> string \<Rightarrow> obj \<Rightarrow> obj list promise \<times> idbFactory" where
  "add u h storeName item =
     run_in_store u h storeName ReadWrite True (\<lambda>store. addObjectData store item)"

definition put :: "IndexedDBUtil \<Rightarrow> idbFactory \<Rightarrow> string \<Rightarrow> obj \<Rightarrow> key promise \<times> idbFactory" where
  "put u h storeName item =
     run_in_store u h storeName ReadWrite True (\<lambda>store. putObjectData store item)"

definition bulkAdd ::
  "IndexedDBUtil \<Rightarrow> idbFactory \<Rightarrow> string \<Rightarrow> obj list \<Rightarrow> key list promise \<times> idbFactory" where
  "bulkAdd u h storeName dataArray =
     run_in_store u h storeName ReadWrite True (\<lambda>store. bulkAddObjectData store dataArray)"

definition update ::
  "IndexedDBUtil \<Rightarrow> idbFactory \<Rightarrow> string \<Rightarrow> string \<Rightarrow> key \<Rightarrow> obj \<Rightarrow> obj list promise \<times> idbFactory" where
  "update u h storeName kp k newData =
     run_in_store u h storeName ReadWrite True (\<lambda>store. updateObjectData store kp k newData)"

definition delete ::
  "IndexedDBUtil \<Rightarrow> idbFactory \<Rightarrow> string \<Rightarrow> key \<Rightarrow> (obj \<times> obj list) promise \<times> idbFactory" where
  "delete u h storeName k =
     run_in_store u h storeName ReadWrite True (\<lambda>store. deleteObjectData store k)"

definition clear :: "IndexedDBUtil \<Rightarrow> idbFactory \<Rightarrow> string \<Rightarrow> unit promise \<times> idbFactory" where
  "clear u h storeName = run_in_store u h storeName ReadWrite True clearObjectStore"

text \<open>\<open>db.close()\<close> closes one connection to the database.\<close>

definition idb_close :: "idbFactory \<Rightarrow> connection \<Rightarrow> idbFactory" where
  "idb_close h c = (case lookup_db h (conn_name c) of
       None \<Rightarrow> h
     | Some d \<Rightarrow> update_db h (conn_name c) (d\<lparr>connections := connections d - 1\<rparr>))"

definition close :: "IndexedDBUtil \<Rightarrow> idbFactory \<Rightarrow> IndexedDBUtil \<times> idbFactory" where
  "close u h = (case db u of
       None \<Rightarrow> (u, h)
     | Some c \<Rightarrow> (u\<lparr>db := None\<rparr>, idb_close h c))"

text \<open>
  The calls a program makes on an instance, one after the other, and the state each
  leaves.
\<close>

datatype call =
    Init
  | Close
  | Get string key
  | GetAll string
  | Query string QueryOptions
  | Count string "keyRange option"
  | Add string obj
  | Put string obj
  | BulkAdd string "obj list"
  | Update string string key obj
  | Delete string key
  | Clear string

fun step :: "call \<Rightarrow> IndexedDBUtil \<times> idbFactory \<Rightarrow> IndexedDBUtil \<times> idbFactory" where
  "step Init (u, h) = snd (init u h)"
| "step Close (u, h) = close u h"
| "step (Get sn k) (u, h) = (u, snd (get u h sn k))"
| "step (GetAll sn) (u, h) = (u, snd (getAll u h sn))"
| "step (Query sn options) (u, h) = (u, snd (query u h sn options))"
| "step (Count sn rng) (u, h) = (u, snd (count u h sn rng))"
| "step (Add sn item) (u, h) = (u, snd (add u h sn item))"
| "step (Put sn item) (u, h) = (u, snd (put u h sn item))"
| "step (BulkAdd sn dataArray) (u, h) = (u, snd (bulkAdd u h sn dataArray))"
| "step (Update sn kp k newData) (u, h) = (u, snd (update u h sn kp k newData))"
| "step (Delete sn k) (u, h) = (u, snd (delete u h sn k))"
| "step (Clear sn) (u, h) = (u, snd (clear u h sn))"

text \<open>
  Whether the instance has been initialized and not closed since: it is after an \<open>init\<close>
  that resolves, it is not after a \<open>close\<close>, and no other call changes it.
\<close>

fun initialized_after :: "call \<Rightarrow> IndexedDBUtil \<times> idbFactory \<Rightarrow> bool \<Rightarrow> bool" where
  "initialized_after Init (u, h) was = (if fst (init u h) = Resolved () then True else was)"
| "initialized_after Close (u, h) was = False"
| "initialized_after other (u, h) was = was"

fun run :: "call list \<Rightarrow> bool \<times> IndexedDBUtil \<times> idbFactory \<Rightarrow> bool \<times> IndexedDBUtil \<times> idbFactory" where
  "run [] state = state"
| "run (c # cs) (was, u, h) = run cs (initialized_after c (u, h) was, step c (u, h))"

text \<open>The error of \<open>getDB\<close> on an instance without a connection.\<close>

definition not_initialized :: error where
  "not_initialized = IndexedDBError ''Database not initialized. Call init() first.''"

section \<open>Auxiliary definitions for the statements\<close>





subsection \<open>Example stores\<close>

text \<open>
  The store \<open>items\<close> of the specification's scenario, after the inserts of \<open>a\<close>, \<open>b\<close> and
  \<open>c\<close>; and a store \<open>users\<close> with a unique index on \<open>email\<close>, whose second record has
  no \<open>email\<close>.
\<close>

definition items_store :: objectStore where
  "items_store = \<lparr>name = ''items'', keyPath = Some ''id'', autoIncrement = True, keyGenerator = 4,
     records = [(KNum 1, [(''id'', VNum 1), (''name'', VStr ''a'')]),
                (KNum 2, [(''id'', VNum 2), (''name'', VStr ''b'')]),
                (KNum 3, [(''id'', VNum 3), (''name'', VStr ''c'')])],
     indexes = [], faults = [], aborted = False\<rparr>"

definition users_store :: objectStore where
  "users_store = \<lparr>name = ''users'', keyPath = Some ''id'', autoIncrement = False, keyGenerator = 1,
     records = [(KNum 1, [(''id'', VNum 1), (''email'', VStr ''a@x.com'')]),
                (KNum 2, [(''id'', VNum 2), (''name'', VStr ''b'')])],
     indexes = [\<lparr>idx_name = ''email'', idx_keyPath = ''email'', idx_unique = True\<rparr>],
     faults = [], aborted = False\<rparr>"


text \<open>The outcome the host has scheduled for the next request event.\<close>

definition pending_fault :: "objectStore \<Rightarrow> dom_exception option" where
  "pending_fault s = (case faults s of [] \<Rightarrow> None | f # fs \<Rightarrow> f)"

text \<open>No two records of a store share a primary key.\<close>

definition distinct_keys :: "objectStore \<Rightarrow> bool" where
  "distinct_keys s = distinct (map fst (records s))"

text \<open>
  The primary key and the value under which \<open>store.add(data)\<close> stores the record, when
  the call does not throw and the key generator has a key left.
\<close>

definition assigned :: "objectStore \<Rightarrow> obj \<Rightarrow> (key \<times> obj) option" where
  "assigned s data = (case extract_key s data of
       Inl e \<Rightarrow> None
     | Inr (Explicit k) \<Rightarrow> Some (k, data)
     | Inr Generate \<Rightarrow>
         if 2 ^ 53 < keyGenerator s then None
         else Some (KNum (keyGenerator s), inject_key (keyPath s) (KNum (keyGenerator s)) data))"

text \<open>The error with which \<open>addObjectData\<close> rejects for a failed request.\<close>

definition add_rejection :: "dom_exception \<Rightarrow> error" where
  "add_rejection e = IndexedDBError (orElse (message e) ''Failed to add data to store'')"

text \<open>The state in which the host stores the record: the key generator has moved.\<close>

definition generator_moved :: "objectStore \<Rightarrow> obj \<Rightarrow> objectStore" where
  "generator_moved s data = (case extract_key s data of
       Inl e \<Rightarrow> s
     | Inr (Explicit k) \<Rightarrow> update_generator s k
     | Inr Generate \<Rightarrow> s\<lparr>keyGenerator := keyGenerator s + 1\<rparr>)"

text \<open>
  One insert per record, each on the store the one before it left, up to the first insert
  that does not succeed.
\<close>

fun add_each :: "objectStore \<Rightarrow> obj list \<Rightarrow> key request list \<times> objectStore" where
  "add_each s [] = ([], s)"
| "add_each s (data # rest) = (case idb_add s data of
       (Succeeded k, s') \<Rightarrow> (case add_each s' rest of (rs, s'') \<Rightarrow> (Succeeded k # rs, s''))
     | (Failed e, s') \<Rightarrow> ([Failed e], s')
     | (Threw e, s') \<Rightarrow> ([Threw e], s'))"

text \<open>No call of \<open>store.add\<close> for a record of the list throws.\<close>

definition no_call_throws :: "objectStore \<Rightarrow> obj list \<Rightarrow> bool" where
  "no_call_throws s dataArray =
     list_all (\<lambda>data. case extract_key s data of Inl e \<Rightarrow> False | Inr ks \<Rightarrow> True) dataArray"

text \<open>What a list of request results amounts to: all keys, or the first failure and its index.\<close>

fun outcome :: "nat \<Rightarrow> key request list \<Rightarrow> dom_exception \<times> nat + key list" where
  "outcome i [] = Inr []"
| "outcome i (Succeeded k # rs) = (case outcome (i + 1) rs of
       Inr keys \<Rightarrow> Inr (k # keys)
     | Inl failure \<Rightarrow> Inl failure)"
| "outcome i (Failed e # rs) = Inl (e, i)"
| "outcome i (Threw e # rs) = Inl (e, i)"

text \<open>The records of a store are in ascending key order.\<close>

definition sorted_keys :: "objectStore \<Rightarrow> bool" where
  "sorted_keys s = sorted_wrt key_less (map fst (records s))"

text \<open>\<open>cursor.update(newData)\<close> at the record under \<open>pk\<close> does not throw.\<close>

definition update_accepted :: "objectStore \<Rightarrow> key \<Rightarrow> obj \<Rightarrow> bool" where
  "update_accepted s pk newData = (case keyPath s of
       None \<Rightarrow> True
     | Some p \<Rightarrow> getProp newData p = Some (val_of_key pk))"

text \<open>A database \<open>shop\<close> at version 1 with the stores \<open>items\<close> and \<open>users\<close>.\<close>

definition shop_host :: idbFactory where
  "shop_host = \<lparr>supported = True,
     databases = [(''shop'', \<lparr>version = 1, objectStores = [items_store, users_store], connections = 1\<rparr>)]\<rparr>"

text \<open>
  The store of a configuration holds an \<open>id\<close> for each of the configuration's initial
  records.
\<close>

definition seeded :: "idbFactory \<Rightarrow> connection \<Rightarrow> IDBStoreConfig \<Rightarrow> bool" where
  "seeded h c cfg = (case lookup_db h (conn_name c) of
       None \<Rightarrow> False
     | Some d \<Rightarrow>
         (case find_store (objectStores d) (cfg_name cfg) of
            None \<Rightarrow> False
          | Some s \<Rightarrow>
              \<not> aborted s \<and>
              list_all (\<lambda>item. Some (val_of_key (item_id item)) \<in>
                                  set (existing_ids (map snd (records s))))
                (cfg_data cfg)))"

text \<open>The host has no failure scheduled for a store of the database.\<close>

definition quiet :: "database \<Rightarrow> bool" where
  "quiet d = list_all (\<lambda>s. faults s = []) (objectStores d)"

text \<open>
  The configuration of the test suite (two initial users; \<open>products\<close> without data), a
  host without databases, and the database \<open>test-db\<close> as the first \<open>createDB\<close> leaves it.
\<close>

definition test_stores :: "IDBStoreConfig list" where
  "test_stores =
     [\<lparr>cfg_name = ''users'', cfg_keyPath = Some ''id'', cfg_autoIncrement = True,
       cfg_indices = [\<lparr>idx_name = ''email'', idx_keyPath = ''email'', idx_unique = True\<rparr>],
       cfg_data = [\<lparr>item_id = KNum 1, item_fields = [(''email'', VStr ''john@example.com'')]\<rparr>,
                   \<lparr>item_id = KNum 2, item_fields = [(''email'', VStr ''jane@example.com'')]\<rparr>]\<rparr>,
      \<lparr>cfg_name = ''products'', cfg_keyPath = Some ''id'', cfg_autoIncrement = True,
       cfg_indices = [], cfg_data = []\<rparr>]"

definition fresh_host :: idbFactory where
  "fresh_host = \<lparr>supported = True, databases = []\<rparr>"

definition test_db :: database where
  "test_db = \<lparr>version = 1,
     objectStores =
       [\<lparr>name = ''users'', keyPath = Some ''id'', autoIncrement = True, keyGenerator = 3,
         records = [(KNum 1, [(''id'', VNum 1), (''email'', VStr ''john@example.com'')]),
                    (KNum 2, [(''id'', VNum 2), (''email'', VStr ''jane@example.com'')])],
         indexes = [\<lparr>idx_name = ''email'', idx_keyPath = ''email'', idx_unique = True\<rparr>],
         faults = [], aborted = False\<rparr>,
        \<lparr>name = ''products'', keyPath = Some ''id'', autoIncrement = True, keyGenerator = 1,
         records = [], indexes = [], faults = [], aborted = False\<rparr>],
     connections = 1\<rparr>"

section \<open>Properties of the record operations\<close>

subsection \<open>Unfolding the host on concrete inputs\<close>

text \<open>
  The definitions a concrete call unfolds to: the requests of the host on an object
  store, and the host's databases and transactions.
\<close>

lemmas host_eval =
  idb_add_def idb_put_def extract_key_def store_record_def store_with_key_def next_event_def
  update_generator_def has_key_def violated_index_def clashes_def index_key_def put_record_def
  inject_key_def getProp_def abort_def idb_get_def idb_getAll_def idb_delete_def idb_clear_def
  cursor_update_def orElse_def

lemmas db_eval =
  createDB_def idb_open_def lookup_db_def update_db_def find_store_def idb_createObjectStore_def
  idb_createIndex_def index_keys_def storesWithData_def idb_transaction_def idb_objectStore_def
  seedStore_def existing_ids_def end_transaction_def write_store_def error_instanceof_Error_def
  item_value_def

subsection \<open>The order of the keys\<close>

text \<open>The order of the keys is a strict linear order.\<close>

lemma str_less_asym: "str_less a b \<Longrightarrow> \<not> str_less b a"
  by (induction a b rule: str_less.induct) auto

lemma str_less_irrefl: "\<not> str_less a a"
  using str_less_asym by blast

lemma key_less_asym: "key_less a b \<Longrightarrow> \<not> key_less b a"
  by (cases a; cases b) (auto dest: str_less_asym)

lemma key_less_irrefl: "\<not> key_less a a"
  using key_less_asym by blast

lemma sorted_keys_distinct: "sorted_wrt key_less ks \<Longrightarrow> distinct ks"
  by (induction ks) (auto simp: key_less_irrefl)

lemma str_less_total: "a \<noteq> b \<Longrightarrow> str_less a b \<or> str_less b a"
proof (induction a b rule: str_less.induct)
  case (4 x xs y ys)
  show ?case
  proof (cases "x = y")
    case True
    with 4 show ?thesis by auto
  next
    case False
    then have "(of_char x :: nat) \<noteq> of_char y" by simp
    then have "(of_char x :: nat) < of_char y \<or> (of_char y :: nat) < of_char x" by linarith
    then show ?thesis by auto
  qed
qed simp_all

lemma str_less_trans: "str_less a b \<Longrightarrow> str_less b c \<Longrightarrow> str_less a c"
proof (induction a b arbitrary: c rule: str_less.induct)
  case 1
  then show ?case by simp
next
  case (2 y ys)
  then show ?case by (cases c) simp_all
next
  case (3 x xs)
  then show ?case by simp
next
  case (4 x xs y ys)
  then show ?case by (cases c) (auto dest: less_trans)
qed

lemma key_less_total: "a \<noteq> b \<Longrightarrow> key_less a b \<or> key_less b a"
  by (cases a; cases b) (auto dest: str_less_total)

lemma key_less_trans: "key_less a b \<Longrightarrow> key_less b c \<Longrightarrow> key_less a c"
  by (cases a; cases b; cases c) (auto dest: str_less_trans)


lemma set_insert_entry: "set (insert_entry x xs) = insert x (set xs)"
  by (induction xs) auto


subsection \<open>queryObjectData\<close>

lemma next_event_no_faults: "faults s = [] \<Longrightarrow> next_event s = (None, s)"
  by (simp add: next_event_def)





















text \<open>
  For the handler a limit of zero is no limit: the query with \<open>limit: 0\<close> does what the
  query without a limit does, on every store.
\<close>

lemma queryLoop_limit_zero:
  "queryLoop (Some 0) off vs skipped counted results s = queryLoop None off vs skipped counted results s"
  by (induction vs arbitrary: skipped counted results s)
     (simp_all add: limit_reached_def split: prod.splits option.splits)

lemma queryObjectData_limit_zero:
  "queryObjectData store (options\<lparr>limit := Some 0\<rparr>) = queryObjectData store (options\<lparr>limit := None\<rparr>)"
  by (simp add: queryObjectData_def cursor_source_def queryLoop_limit_zero split: sum.splits)

text \<open>
  C2. With \<open>limit: 0\<close> the query should resolve with the empty list. The handler tests
  \<open>limit && counted >= limit\<close>, and zero is falsy: on the store \<open>items\<close> the query
  collects all three records.
\<close>

theorem query_limit_zero_collects_all:
  "queryObjectData items_store \<lparr>index = None, direction = None, limit = Some 0, offset = None\<rparr> =
     (Resolved [[(''id'', VNum 1), (''name'', VStr ''a'')],
                [(''id'', VNum 2), (''name'', VStr ''b'')],
                [(''id'', VNum 3), (''name'', VStr ''c'')]], items_store)"
  by (simp add: queryObjectData_def cursor_source_def next_event_def limit_reached_def items_store_def)

subsection \<open>getObjectData and deleteObjectData\<close>

lemma next_event_cases:
  "next_event s = (pending_fault s, s\<lparr>faults := tl (faults s)\<rparr>)"
  by (cases "faults s") (simp_all add: next_event_def pending_fault_def)

lemma has_key_map_of: "has_key s k = (map_of (records s) k \<noteq> None)"
  by (simp add: has_key_def map_of_eq_None_iff)

text \<open>
  C8. \<open>getObjectData\<close> on a key with no record resolves with \<open>undefined\<close> (\<open>None\<close>); in
  general it resolves with what the store holds under the key whenever the host's request
  succeeds. It rejects only when the host's request fails, with the host's message, it
  always settles, and it changes no record.
\<close>

theorem get_absent_resolves_undefined:
  "(pending_fault store = None \<longrightarrow> \<not> has_key store k \<longrightarrow>
      fst (getObjectData store k) = Resolved None) \<and>
   (pending_fault store = None \<longrightarrow>
      fst (getObjectData store k) = Resolved (map_of (records store) k)) \<and>
   (\<forall>err. fst (getObjectData store k) = Rejected err \<longrightarrow>
      (\<exists>e. pending_fault store = Some e \<and>
           err = IndexedDBError (orElse (message e) ''Failed to retrieve data''))) \<and>
   fst (getObjectData store k) \<noteq> Pending \<and>
   records (snd (getObjectData store k)) = records store"
  by (cases "pending_fault store")
     (simp_all add: getObjectData_def idb_get_def next_event_cases has_key_map_of abort_def)

theorem get_absent_resolves_undefined_witness:
  "pending_fault items_store = None \<and> \<not> has_key items_store (KNum 9) \<and>
   fst (getObjectData items_store (KNum 9)) = Resolved None \<and>
   fst (getObjectData items_store (KNum 2)) = Resolved (Some [(''id'', VNum 2), (''name'', VStr ''b'')]) \<and>
   fst (getObjectData (items_store\<lparr>faults := [Some (DOMException ''UnknownError'' [])]\<rparr>) (KNum 9)) =
     Rejected (IndexedDBError ''Failed to retrieve data'') \<and>
   pending_fault (items_store\<lparr>faults := [Some (DOMException ''UnknownError'' [])]\<rparr>) =
     Some (DOMException ''UnknownError'' [])"
proof -
  have p: "pending_fault items_store = None" by (simp add: pending_fault_def items_store_def)
  have h: "\<not> has_key items_store (KNum 9)" by (simp add: has_key_def items_store_def)
  have f: "fst (getObjectData (items_store\<lparr>faults := [Some (DOMException ''UnknownError'' [])]\<rparr>) (KNum 9)) =
     Rejected (IndexedDBError ''Failed to retrieve data'')"
    by (simp add: getObjectData_def idb_get_def next_event_def orElse_def)
  have pf: "pending_fault (items_store\<lparr>faults := [Some (DOMException ''UnknownError'' [])]\<rparr>) =
     Some (DOMException ''UnknownError'' [])"
    by (simp add: pending_fault_def)
  from get_absent_resolves_undefined[of items_store "KNum 9"] p h
  have a: "fst (getObjectData items_store (KNum 9)) = Resolved None" by simp
  from get_absent_resolves_undefined[of items_store "KNum 2"] p
  have b: "fst (getObjectData items_store (KNum 2)) = Resolved (Some [(''id'', VNum 2), (''name'', VStr ''b'')])"
    by (simp add: items_store_def)
  from get_absent_resolves_undefined
      [of "items_store\<lparr>faults := [Some (DOMException ''UnknownError'' [])]\<rparr>" "KNum 9"] f
  have "\<exists>e. pending_fault (items_store\<lparr>faults := [Some (DOMException ''UnknownError'' [])]\<rparr>) = Some e"
    by simp
  with p h a b f pf show ?thesis by simp
qed


lemma getAllObjectData_no_faults:
  "faults s = [] \<Longrightarrow> getAllObjectData s = (Resolved (map snd (records s)), s)"
  by (simp add: getAllObjectData_def idb_getAll_def next_event_no_faults)





subsection \<open>addObjectData\<close>

lemma has_key_update_generator [simp]: "has_key (update_generator s k) k' = has_key s k'"
  by (cases k) (simp_all add: update_generator_def has_key_def)

lemma violated_index_update_generator [simp]:
  "violated_index (update_generator s k) k' v = violated_index s k' v"
  by (cases k) (simp_all add: update_generator_def violated_index_def)

lemma records_update_generator [simp]: "records (update_generator s k) = records s"
  by (cases k) (simp_all add: update_generator_def)

lemma faults_update_generator [simp]: "faults (update_generator s k) = faults s"
  by (cases k) (simp_all add: update_generator_def)

lemma indexes_update_generator [simp]: "indexes (update_generator s k) = indexes s"
  by (cases k) (simp_all add: update_generator_def)

lemma store_with_key_fresh:
  "\<not> has_key s k \<Longrightarrow> violated_index s k v = None \<Longrightarrow>
   store_with_key s k v ow = (Succeeded k, s\<lparr>records := put_record k v (records s)\<rparr>)"
  by (simp add: store_with_key_def)

lemma store_with_key_taken:
  "has_key s k \<Longrightarrow> store_with_key s k v True = (Failed ConstraintError_key, abort s)"
  by (simp add: store_with_key_def)

lemma store_with_key_clash:
  "\<not> has_key s k \<Longrightarrow> violated_index s k v = Some idx \<Longrightarrow>
   store_with_key s k v ow = (Failed (ConstraintError_index (idx_name idx)), abort s)"
  by (simp add: store_with_key_def)

lemma generator_moved_simps [simp]:
  "records (generator_moved s data) = records s"
  "faults (generator_moved s data) = faults s"
  "has_key (generator_moved s data) k = has_key s k"
  "violated_index (generator_moved s data) k v = violated_index s k v"
  by (auto simp: generator_moved_def has_key_def violated_index_def
      split: sum.splits key_source.splits)

lemma idb_add_no_faults:
  assumes "faults s = []" and "assigned s data = Some (k, v)"
  shows "idb_add s data = store_with_key (generator_moved s data) k v True"
  using assms
  by (auto simp: idb_add_def assigned_def store_record_def next_event_no_faults generator_moved_def
      split: sum.splits key_source.splits if_splits)

lemma put_record_fresh:
  assumes "k \<notin> fst ` set recs"
  shows "put_record k v recs = insert_entry (k, v) recs"
proof -
  from assms have "filter (\<lambda>kv. fst kv \<noteq> k) recs = recs"
    by (auto simp: filter_id_conv)
  then show ?thesis by (simp add: put_record_def)
qed

lemma exn_name_constraint:
  "exn_name ConstraintError_key = ''ConstraintError''"
  "exn_name (ConstraintError_index nm) = ''ConstraintError''"
  by (simp_all add: ConstraintError_key_def ConstraintError_index_def)

text \<open>
  C3. While the host reports no other error, an insert whose primary key is \<open>k\<close>:
  rejects with the host's \<open>ConstraintError\<close> (wrapped in an \<open>IndexedDBError\<close> that carries
  its message) when \<open>k\<close> is already in the store, and when a unique index is violated;
  otherwise it resolves with all records of the store after the insertion, the store
  then holding the new record next to the old ones.
\<close>

theorem add_constraint_or_all_records:
  assumes "faults store = []" and "assigned store data = Some (k, v)"
  shows "(has_key store k \<longrightarrow>
      fst (addObjectData store data) = Rejected (add_rejection ConstraintError_key) \<and>
      exn_name ConstraintError_key = ''ConstraintError'') \<and>
   (\<forall>idx. \<not> has_key store k \<longrightarrow> violated_index store k v = Some idx \<longrightarrow>
      fst (addObjectData store data) = Rejected (add_rejection (ConstraintError_index (idx_name idx))) \<and>
      exn_name (ConstraintError_index (idx_name idx)) = ''ConstraintError'') \<and>
   (\<not> has_key store k \<longrightarrow> violated_index store k v = None \<longrightarrow>
      fst (addObjectData store data) = Resolved (map snd (records (snd (addObjectData store data)))) \<and>
      records (snd (addObjectData store data)) = insert_entry (k, v) (records store) \<and>
      set (records (snd (addObjectData store data))) = insert (k, v) (set (records store)))"
proof -
  let ?g = "generator_moved store data"
  have add: "idb_add store data = store_with_key ?g k v True"
    using assms by (rule idb_add_no_faults)
  have a: "has_key store k \<longrightarrow>
      fst (addObjectData store data) = Rejected (add_rejection ConstraintError_key) \<and>
      exn_name ConstraintError_key = ''ConstraintError''"
    by (simp add: addObjectData_def add store_with_key_taken add_rejection_def exn_name_constraint)
  have b: "\<forall>idx. \<not> has_key store k \<longrightarrow> violated_index store k v = Some idx \<longrightarrow>
      fst (addObjectData store data) = Rejected (add_rejection (ConstraintError_index (idx_name idx))) \<and>
      exn_name (ConstraintError_index (idx_name idx)) = ''ConstraintError''"
    by (simp add: addObjectData_def add store_with_key_clash add_rejection_def exn_name_constraint)
  have c: "\<not> has_key store k \<longrightarrow> violated_index store k v = None \<longrightarrow>
      fst (addObjectData store data) = Resolved (map snd (records (snd (addObjectData store data)))) \<and>
      records (snd (addObjectData store data)) = insert_entry (k, v) (records store) \<and>
      set (records (snd (addObjectData store data))) = insert (k, v) (set (records store))"
  proof (intro impI)
    assume nk: "\<not> has_key store k" and nv: "violated_index store k v = None"
    let ?s' = "?g\<lparr>records := put_record k v (records ?g)\<rparr>"
    have "addObjectData store data = (Resolved (map snd (records ?s')), ?s')"
      using nk nv assms(1)
      by (simp add: addObjectData_def add store_with_key_fresh getAllObjectData_no_faults)
    moreover have "records ?s' = insert_entry (k, v) (records store)"
      using nk by (simp add: put_record_fresh has_key_def)
    ultimately show "fst (addObjectData store data) = Resolved (map snd (records (snd (addObjectData store data)))) \<and>
      records (snd (addObjectData store data)) = insert_entry (k, v) (records store) \<and>
      set (records (snd (addObjectData store data))) = insert (k, v) (set (records store))"
      by (simp add: set_insert_entry)
  qed
  show ?thesis by (rule conjI a b c)+
qed

theorem add_constraint_or_all_records_witness:
  "faults users_store = [] \<and>
   assigned users_store [(''id'', VNum 1), (''email'', VStr ''z@x.com'')] =
     Some (KNum 1, [(''id'', VNum 1), (''email'', VStr ''z@x.com'')]) \<and>
   has_key users_store (KNum 1) \<and>
   fst (addObjectData users_store [(''id'', VNum 1), (''email'', VStr ''z@x.com'')]) =
     Rejected (IndexedDBError ''Key already exists in the object store.'') \<and>
   \<not> has_key users_store (KNum 3) \<and>
   fst (addObjectData users_store [(''id'', VNum 3), (''email'', VStr ''a@x.com'')]) =
     Rejected (IndexedDBError
       ''Unable to add key to index email: at least one key does not satisfy the uniqueness requirements.'') \<and>
   violated_index users_store (KNum 3) [(''id'', VNum 3), (''email'', VStr ''c@x.com'')] = None \<and>
   fst (addObjectData users_store [(''id'', VNum 3), (''email'', VStr ''c@x.com'')]) =
     Resolved [[(''id'', VNum 1), (''email'', VStr ''a@x.com'')],
               [(''id'', VNum 2), (''name'', VStr ''b'')],
               [(''id'', VNum 3), (''email'', VStr ''c@x.com'')]]"
proof -
  let ?d1 = "[(''id'', VNum 1), (''email'', VStr ''z@x.com'')]"
  let ?d2 = "[(''id'', VNum 3), (''email'', VStr ''a@x.com'')]"
  let ?d3 = "[(''id'', VNum 3), (''email'', VStr ''c@x.com'')]"
  have f: "faults users_store = []" by (simp add: users_store_def)
  have a1: "assigned users_store ?d1 = Some (KNum 1, ?d1)"
    by (simp add: assigned_def extract_key_def getProp_def users_store_def)
  have a2: "assigned users_store ?d2 = Some (KNum 3, ?d2)"
    by (simp add: assigned_def extract_key_def getProp_def users_store_def)
  have a3: "assigned users_store ?d3 = Some (KNum 3, ?d3)"
    by (simp add: assigned_def extract_key_def getProp_def users_store_def)
  have k1: "has_key users_store (KNum 1)" by (simp add: has_key_def users_store_def)
  have k3: "\<not> has_key users_store (KNum 3)" by (simp add: has_key_def users_store_def)
  have v2: "violated_index users_store (KNum 3) ?d2 =
      Some \<lparr>idx_name = ''email'', idx_keyPath = ''email'', idx_unique = True\<rparr>"
    by (simp add: violated_index_def clashes_def index_key_def getProp_def users_store_def)
  have v3: "violated_index users_store (KNum 3) ?d3 = None"
    by (simp add: violated_index_def clashes_def index_key_def getProp_def users_store_def)
  from add_constraint_or_all_records[OF f a1] k1
  have r1: "fst (addObjectData users_store ?d1) =
     Rejected (IndexedDBError ''Key already exists in the object store.'')"
    by (simp add: add_rejection_def ConstraintError_key_def orElse_def)
  from add_constraint_or_all_records[OF f a2] k3 v2
  have r2: "fst (addObjectData users_store ?d2) = Rejected (IndexedDBError
       ''Unable to add key to index email: at least one key does not satisfy the uniqueness requirements.'')"
    by (simp add: add_rejection_def ConstraintError_index_def orElse_def)
  from add_constraint_or_all_records[OF f a3] k3 v3
  have r3: "fst (addObjectData users_store ?d3) =
     Resolved [[(''id'', VNum 1), (''email'', VStr ''a@x.com'')],
               [(''id'', VNum 2), (''name'', VStr ''b'')],
               [(''id'', VNum 3), (''email'', VStr ''c@x.com'')]]"
    by (simp add: users_store_def)
  from f a1 k1 r1 k3 r2 v3 r3 show ?thesis by simp
qed

subsection \<open>bulkAddObjectData\<close>

lemma store_with_key_config:
  "store_with_key s k v ow = (r, s') \<Longrightarrow>
   keyPath s' = keyPath s \<and> autoIncrement s' = autoIncrement s \<and> (\<forall>e. r \<noteq> Threw e)"
  by (auto simp: store_with_key_def abort_def split: if_splits option.splits)

lemma update_generator_config [simp]:
  "keyPath (update_generator s k) = keyPath s"
  "autoIncrement (update_generator s k) = autoIncrement s"
  by (cases k; simp add: update_generator_def)+

lemma store_record_config:
  assumes "store_record s ks data ow = (r, s')"
  shows "keyPath s' = keyPath s \<and> autoIncrement s' = autoIncrement s \<and> (\<forall>e. r \<noteq> Threw e)"
proof (cases "pending_fault s")
  case (Some e)
  with assms show ?thesis
    by (auto simp: store_record_def next_event_cases abort_def)
next
  case None
  show ?thesis
  proof (cases ks)
    case (Explicit k)
    with None assms
    have "store_with_key (update_generator (s\<lparr>faults := tl (faults s)\<rparr>) k) k data ow = (r, s')"
      by (simp add: store_record_def next_event_cases)
    from store_with_key_config[OF this] show ?thesis by simp
  next
    case Generate
    show ?thesis
    proof (cases "2 ^ 53 < keyGenerator s")
      case True
      with None Generate assms show ?thesis
        by (auto simp: store_record_def next_event_cases abort_def)
    next
      case False
      with None Generate assms
      have "store_with_key (s\<lparr>faults := tl (faults s), keyGenerator := keyGenerator s + 1\<rparr>)
              (KNum (keyGenerator s)) (inject_key (keyPath s) (KNum (keyGenerator s)) data) ow = (r, s')"
        by (simp add: store_record_def next_event_cases)
      from store_with_key_config[OF this] show ?thesis by simp
    qed
  qed
qed

lemma extract_key_config:
  "keyPath s' = keyPath s \<Longrightarrow> autoIncrement s' = autoIncrement s \<Longrightarrow>
   extract_key s' data = extract_key s data"
  by (simp add: extract_key_def)

lemma process_adds_add_each:
  assumes "issue_adds c dataArray = (reqs, None)"
    and "keyPath s = keyPath c" and "autoIncrement s = autoIncrement c"
  shows "process_adds reqs i s = (outcome i (fst (add_each s dataArray)), snd (add_each s dataArray))"
  using assms
proof (induction dataArray arbitrary: reqs i s)
  case Nil
  then show ?case by simp
next
  case (Cons data rest)
  from Cons.prems(1) obtain ks reqs' where ks: "extract_key c data = Inr ks"
    and rest: "issue_adds c rest = (reqs', None)" and reqs: "reqs = (ks, data) # reqs'"
    by (auto split: sum.splits prod.splits)
  have ks': "extract_key s data = Inr ks"
    using ks extract_key_config[OF Cons.prems(2,3)] by simp
  obtain r s1 where sr: "store_record s ks data True = (r, s1)" by fastforce
  from store_record_config[OF sr] Cons.prems(2,3)
  have cfg: "keyPath s1 = keyPath c" "autoIncrement s1 = autoIncrement c" and nt: "\<forall>e. r \<noteq> Threw e"
    by simp_all
  show ?case
  proof (cases r)
    case (Succeeded k)
    with sr ks' reqs Cons.IH[OF rest cfg, of "i + 1"] show ?thesis
      by (simp add: idb_add_def split: prod.splits sum.splits)
  next
    case (Failed e)
    with sr ks' reqs show ?thesis by (simp add: idb_add_def)
  next
    case (Threw e)
    with nt show ?thesis by simp
  qed
qed

lemma outcome_all: "outcome i (map Succeeded keys) = Inr keys"
  by (induction keys arbitrary: i) simp_all

lemma outcome_failure:
  "\<forall>k. r \<noteq> Succeeded k \<Longrightarrow> \<exists>e. outcome i (map Succeeded ks @ [r]) = Inl (e, i + length ks)"
proof (induction ks arbitrary: i)
  case Nil
  then show ?case by (cases r) simp_all
next
  case (Cons k ks)
  from Cons.IH[OF Cons.prems, of "i + 1"] show ?case by auto
qed

lemma outcome_Failed: "outcome i (map Succeeded ks @ [Failed e]) = Inl (e, i + length ks)"
  by (induction ks arbitrary: i) simp_all

lemma add_each_Cons:
  "idb_add s data = (Succeeded k, s1) \<Longrightarrow>
     add_each s (data # rest) = (Succeeded k # fst (add_each s1 rest), snd (add_each s1 rest))"
  "idb_add s data = (Failed e, s1) \<Longrightarrow> add_each s (data # rest) = ([Failed e], s1)"
  "idb_add s data = (Threw e, s1) \<Longrightarrow> add_each s (data # rest) = ([Threw e], s1)"
  by (simp_all add: case_prod_beta)

lemma add_each_shape:
  "(\<exists>keys. fst (add_each s dataArray) = map Succeeded keys \<and> length keys = length dataArray) \<or>
   (\<exists>ks r. fst (add_each s dataArray) = map Succeeded ks @ [r] \<and> (\<forall>k. r \<noteq> Succeeded k))"
proof (induction dataArray arbitrary: s)
  case Nil
  then show ?case by simp
next
  case (Cons data rest)
  obtain r s1 where a: "idb_add s data = (r, s1)" by fastforce
  show ?case
  proof (cases r)
    case (Succeeded k)
    from Cons.IH[of s1] show ?thesis
    proof
      assume "\<exists>keys. fst (add_each s1 rest) = map Succeeded keys \<and> length keys = length rest"
      then obtain keys where "fst (add_each s1 rest) = map Succeeded keys" "length keys = length rest"
        by blast
      with a Succeeded have "fst (add_each s (data # rest)) = map Succeeded (k # keys) \<and>
          length (k # keys) = length (data # rest)"
        by (simp add: add_each_Cons del: add_each.simps)
      then show ?thesis by blast
    next
      assume "\<exists>ks r. fst (add_each s1 rest) = map Succeeded ks @ [r] \<and> (\<forall>k. r \<noteq> Succeeded k)"
      then obtain ks r' where "fst (add_each s1 rest) = map Succeeded ks @ [r']" "\<forall>k. r' \<noteq> Succeeded k"
        by blast
      with a Succeeded have "fst (add_each s (data # rest)) = map Succeeded (k # ks) @ [r'] \<and>
          (\<forall>k. r' \<noteq> Succeeded k)"
        by (simp add: add_each_Cons del: add_each.simps)
      then show ?thesis by blast
    qed
  next
    case (Failed e)
    with a have "fst (add_each s (data # rest)) = map Succeeded [] @ [Failed e]" by simp
    then show ?thesis by blast
  next
    case (Threw e)
    with a have "fst (add_each s (data # rest)) = map Succeeded [] @ [Threw e]" by simp
    then show ?thesis by blast
  qed
qed

lemma map_Succeeded_not_failure:
  "\<forall>k. r \<noteq> Succeeded k \<Longrightarrow> map Succeeded ks @ [r] \<noteq> map Succeeded keys"
proof
  assume a: "\<forall>k. r \<noteq> Succeeded k" and e: "map Succeeded ks @ [r] = map Succeeded keys"
  have "r \<in> set (map Succeeded ks @ [r])" by simp
  with e have "r \<in> set (map Succeeded keys)" by simp
  with a show False by auto
qed

lemma add_each_all_length:
  "fst (add_each s dataArray) = map Succeeded keys \<Longrightarrow> length keys = length dataArray"
  using add_each_shape[of s dataArray] map_Succeeded_not_failure
  by (metis length_map)

lemma no_call_throws_issue:
  "no_call_throws c dataArray \<Longrightarrow> snd (issue_adds c dataArray) = None"
  by (induction dataArray) (auto simp: no_call_throws_def split: sum.splits prod.splits)

lemma issue_adds_thrown_not_all:
  assumes "snd (issue_adds c dataArray) = Some e"
    and "keyPath s = keyPath c" and "autoIncrement s = autoIncrement c"
  shows "fst (add_each s dataArray) \<noteq> map Succeeded keys"
  using assms
proof (induction dataArray arbitrary: s keys)
  case Nil
  then show ?case by simp
next
  case (Cons data rest)
  show ?case
  proof (cases "extract_key c data")
    case (Inl ex)
    then have "extract_key s data = Inl ex"
      using extract_key_config[OF Cons.prems(2,3)] by simp
    then show ?thesis by (cases keys) (simp_all add: idb_add_def)
  next
    case (Inr ks)
    with Cons.prems(1) have t: "snd (issue_adds c rest) = Some e"
      by (simp split: prod.splits)
    have ks': "extract_key s data = Inr ks"
      using Inr extract_key_config[OF Cons.prems(2,3)] by simp
    obtain r s1 where sr: "store_record s ks data True = (r, s1)" by fastforce
    from store_record_config[OF sr] Cons.prems(2,3)
    have cfg: "keyPath s1 = keyPath c" "autoIncrement s1 = autoIncrement c" by simp_all
    show ?thesis
    proof (cases r)
      case (Succeeded k)
      show ?thesis
      proof
        assume eq: "fst (add_each s (data # rest)) = map Succeeded keys"
        with sr ks' Succeeded obtain keys' where "fst (add_each s1 rest) = map Succeeded keys'"
          by (cases keys) (auto simp: idb_add_def split: prod.splits)
        with Cons.IH[OF t cfg] show False by blast
      qed
    next
      case (Failed ex)
      with sr ks' show ?thesis by (cases keys) (auto simp: idb_add_def)
    next
      case (Threw ex)
      with sr ks' show ?thesis by (cases keys) (auto simp: idb_add_def)
    qed
  qed
qed

lemma bulkAdd_issued:
  assumes "issue_adds store dataArray = (reqs, None)"
  shows "bulkAddObjectData store dataArray =
    (case outcome 0 (fst (add_each store dataArray)) of
       Inl (e, i) \<Rightarrow> Rejected (IndexedDBError
          (orElse (message e) (''Failed to add item at index '' @ show_nat i)))
     | Inr keys \<Rightarrow> Resolved keys, snd (add_each store dataArray))"
proof (cases dataArray)
  case Nil
  then show ?thesis by (simp add: bulkAddObjectData_def)
next
  case (Cons d ds)
  have "process_adds reqs 0 store =
      (outcome 0 (fst (add_each store dataArray)), snd (add_each store dataArray))"
    using process_adds_add_each[OF assms] by simp
  with assms Cons show ?thesis
    by (simp add: bulkAddObjectData_def split: sum.splits prod.splits del: add_each.simps)
qed

lemma bulkAdd_thrown:
  assumes "snd (issue_adds store dataArray) = Some e"
  shows "fst (bulkAddObjectData store dataArray) = Rejected (HostException e)"
proof -
  from assms have "dataArray \<noteq> []" by (cases dataArray) simp_all
  with assms show ?thesis
    by (simp add: bulkAddObjectData_def case_prod_beta)
qed

text \<open>
  C7. \<open>bulkAddObjectData\<close> against one insert per record, made in input order on one
  store handle (\<open>add_each\<close>): when every insert succeeds it resolves with the keys of
  the inserts, in input order and one per record, and leaves the store the inserts
  leave; when some insert does not succeed it rejects; and when no call throws and the
  first failing request is the one at index \<open>length ks\<close>, it rejects with the error of
  that request.
\<close>

theorem bulk_add_keys_in_order:
  "(\<forall>keys. fst (add_each store dataArray) = map Succeeded keys \<longrightarrow>
      bulkAddObjectData store dataArray = (Resolved keys, snd (add_each store dataArray)) \<and>
      length keys = length dataArray) \<and>
   ((\<forall>keys. fst (add_each store dataArray) \<noteq> map Succeeded keys) \<longrightarrow>
      (\<exists>err. fst (bulkAddObjectData store dataArray) = Rejected err)) \<and>
   (\<forall>ks e. no_call_throws store dataArray \<longrightarrow>
      fst (add_each store dataArray) = map Succeeded ks @ [Failed e] \<longrightarrow>
      fst (bulkAddObjectData store dataArray) =
        Rejected (IndexedDBError
          (orElse (message e) (''Failed to add item at index '' @ show_nat (length ks)))))"
proof (intro conjI allI impI)
  fix keys
  assume all: "fst (add_each store dataArray) = map Succeeded keys"
  have "snd (issue_adds store dataArray) = None"
  proof (cases "snd (issue_adds store dataArray)")
    case None
    then show ?thesis .
  next
    case (Some e)
    from issue_adds_thrown_not_all[OF Some, of store keys] all show ?thesis by simp
  qed
  then obtain reqs where "issue_adds store dataArray = (reqs, None)"
    by (cases "issue_adds store dataArray") simp
  from bulkAdd_issued[OF this] all
  show "bulkAddObjectData store dataArray = (Resolved keys, snd (add_each store dataArray))"
    by (simp add: outcome_all)
  from all show "length keys = length dataArray" by (rule add_each_all_length)
next
  assume none: "\<forall>keys. fst (add_each store dataArray) \<noteq> map Succeeded keys"
  show "\<exists>err. fst (bulkAddObjectData store dataArray) = Rejected err"
  proof (cases "snd (issue_adds store dataArray)")
    case (Some e)
    from bulkAdd_thrown[OF this] show ?thesis by blast
  next
    case None
    then obtain reqs where i: "issue_adds store dataArray = (reqs, None)"
      by (cases "issue_adds store dataArray") simp
    from add_each_shape[of store dataArray] none obtain ks r where
      sh: "fst (add_each store dataArray) = map Succeeded ks @ [r]" and r: "\<forall>k. r \<noteq> Succeeded k"
      by blast
    from outcome_failure[OF r, of 0 ks] obtain e where
      "outcome 0 (map Succeeded ks @ [r]) = Inl (e, 0 + length ks)" by blast
    with bulkAdd_issued[OF i] sh show ?thesis by simp
  qed
next
  fix ks e
  assume nt: "no_call_throws store dataArray"
    and f: "fst (add_each store dataArray) = map Succeeded ks @ [Failed e]"
  from no_call_throws_issue[OF nt] obtain reqs where i: "issue_adds store dataArray = (reqs, None)"
    by (cases "issue_adds store dataArray") simp
  from bulkAdd_issued[OF i] f
  show "fst (bulkAddObjectData store dataArray) =
        Rejected (IndexedDBError
          (orElse (message e) (''Failed to add item at index '' @ show_nat (length ks))))"
    by (simp add: outcome_Failed)
qed

theorem bulk_add_keys_in_order_witness:
  "fst (add_each items_store
          [[(''name'', VStr ''d'')], [(''name'', VStr ''e''), (''id'', VNum 9)], [(''name'', VStr ''f'')]]) =
     map Succeeded [KNum 4, KNum 9, KNum 10] \<and>
   fst (bulkAddObjectData items_store
          [[(''name'', VStr ''d'')], [(''name'', VStr ''e''), (''id'', VNum 9)], [(''name'', VStr ''f'')]]) =
     Resolved [KNum 4, KNum 9, KNum 10] \<and>
   no_call_throws items_store
     [[(''name'', VStr ''d'')], [(''name'', VStr ''e''), (''id'', VNum 2)], [(''name'', VStr ''f'')]] \<and>
   fst (add_each items_store
          [[(''name'', VStr ''d'')], [(''name'', VStr ''e''), (''id'', VNum 2)], [(''name'', VStr ''f'')]]) =
     map Succeeded [KNum 4] @ [Failed ConstraintError_key] \<and>
   fst (bulkAddObjectData items_store
          [[(''name'', VStr ''d'')], [(''name'', VStr ''e''), (''id'', VNum 2)], [(''name'', VStr ''f'')]]) =
     Rejected (IndexedDBError ''Key already exists in the object store.'')"
proof -
  let ?ok = "[[(''name'', VStr ''d'')], [(''name'', VStr ''e''), (''id'', VNum 9)], [(''name'', VStr ''f'')]]"
  let ?bad = "[[(''name'', VStr ''d'')], [(''name'', VStr ''e''), (''id'', VNum 2)], [(''name'', VStr ''f'')]]"
  have a: "fst (add_each items_store ?ok) = map Succeeded [KNum 4, KNum 9, KNum 10]"
    by (simp add: host_eval items_store_def)
  have n: "no_call_throws items_store ?bad"
    by (simp add: no_call_throws_def extract_key_def getProp_def items_store_def)
  have b: "fst (add_each items_store ?bad) = map Succeeded [KNum 4] @ [Failed ConstraintError_key]"
    by (simp add: host_eval items_store_def)
  from bulk_add_keys_in_order[of items_store ?ok] a
  have "bulkAddObjectData items_store ?ok =
      (Resolved [KNum 4, KNum 9, KNum 10], snd (add_each items_store ?ok))"
    by blast
  then have r1: "fst (bulkAddObjectData items_store ?ok) = Resolved [KNum 4, KNum 9, KNum 10]"
    by (simp only: fst_conv)
  from bulk_add_keys_in_order[of items_store ?bad] n b
  have "fst (bulkAddObjectData items_store ?bad) =
     Rejected (IndexedDBError (orElse (message ConstraintError_key)
        (''Failed to add item at index '' @ show_nat (length [KNum 4]))))"
    by blast
  then have r2: "fst (bulkAddObjectData items_store ?bad) =
     Rejected (IndexedDBError ''Key already exists in the object store.'')"
    by (simp add: orElse_def ConstraintError_key_def)
  from a r1 n b r2 show ?thesis by (intro conjI)
qed

subsection \<open>updateObjectData\<close>

lemma insert_entry_between:
  assumes "\<forall>y \<in> set pre. key_less (fst y) k" and "\<forall>z \<in> set post. key_less k (fst z)"
  shows "insert_entry (k, v) (pre @ post) = pre @ (k, v) # post"
  using assms
proof (induction pre)
  case Nil
  then show ?case by (cases post) (auto dest: key_less_asym)
next
  case (Cons y pre)
  then show ?case by simp
qed

lemma put_record_in_place:
  assumes "sorted_wrt key_less (map fst (pre @ (pk, v) # post))"
  shows "put_record pk v' (pre @ (pk, v) # post) = pre @ (pk, v') # post"
proof -
  from assms have lo: "\<forall>y \<in> set pre. key_less (fst y) pk"
    and hi: "\<forall>z \<in> set post. key_less pk (fst z)"
    by (auto simp: sorted_wrt_append)
  from lo have "\<forall>y \<in> set pre. fst y \<noteq> pk" using key_less_irrefl by auto
  moreover from hi have "\<forall>z \<in> set post. fst z \<noteq> pk" using key_less_irrefl by auto
  ultimately have "filter (\<lambda>kv. fst kv \<noteq> pk) (pre @ (pk, v) # post) = pre @ post"
    by (auto simp: filter_id_conv)
  with lo hi show ?thesis by (simp add: put_record_def insert_entry_between)
qed

lemma updateLoop_skip:
  assumes "faults s = []" and "\<forall>e \<in> set pre. \<not> matches (snd e) kp k"
  shows "updateLoop (pre @ rest) found kp k newData s = updateLoop rest found kp k newData s"
  using assms(2)
proof (induction pre)
  case Nil
  then show ?case by simp
next
  case (Cons e pre)
  then show ?case using assms(1) by (cases e) (simp add: next_event_no_faults)
qed

lemma updateLoop_no_match:
  assumes "faults s = []" and "\<forall>e \<in> set entries. \<not> matches (snd e) kp k"
  shows "updateLoop entries False kp k newData s =
    (Rejected (IndexedDBError (''Failed to locate object for update with '' @ kp @ ''='' @ show_key k)), s)"
proof -
  from updateLoop_skip[OF assms, of "[]" False newData]
  show ?thesis using assms(1) by (simp add: next_event_no_faults)
qed

lemma cursor_update_accepted:
  assumes "faults s = []" and "update_accepted s pk newData" and "violated_index s pk newData = None"
  shows "cursor_update s pk newData = (Succeeded pk, s\<lparr>records := put_record pk newData (records s)\<rparr>)"
  using assms
  by (auto simp: cursor_update_def update_accepted_def next_event_no_faults store_with_key_def
      split: option.splits)

lemma find_None_matches:
  "(find (\<lambda>data. matches data kp k) (map snd recs) = None) = (\<forall>e \<in> set recs. \<not> matches (snd e) kp k)"
  by (auto simp: find_None_iff)

lemma updateObjectData_no_match:
  assumes "faults store = []" and "\<forall>e \<in> set (records store). \<not> matches (snd e) kp k"
  shows "updateObjectData store kp k newData =
    (Rejected (IndexedDBError
       (''There's no object in the '' @ name store @ '' whose '' @ kp @ '' matches ''
          @ show_key k @ ''.'')), store)"
proof -
  from assms(2) have "find (\<lambda>data. matches data kp k) (map snd (records store)) = None"
    by (simp add: find_None_matches)
  with assms(1) show ?thesis
    by (simp add: updateObjectData_def getAllObjectData_no_faults)
qed

lemma updateObjectData_replaces:
  assumes f: "faults store = []"
    and recs: "records store = pre @ (pk, v) # post"
    and pre: "\<forall>e \<in> set pre. \<not> matches (snd e) kp k"
    and m: "matches v kp k"
    and sorted: "sorted_keys store"
    and acc: "update_accepted store pk newData"
    and nv: "violated_index store pk newData = None"
  shows "updateObjectData store kp k newData =
    (Resolved (map snd (pre @ (pk, newData) # post)),
     store\<lparr>records := pre @ (pk, newData) # post\<rparr>)"
proof -
  have "\<exists>e \<in> set (records store). matches (snd e) kp k"
    using recs m by auto
  then have "find (\<lambda>data. matches data kp k) (map snd (records store)) \<noteq> None"
    using find_None_matches[of kp k "records store"] by blast
  then obtain target where t: "find (\<lambda>data. matches data kp k) (map snd (records store)) = Some target"
    by blast
  have up: "updateObjectData store kp k newData = updateLoop (records store) False kp k newData store"
    using f t by (simp add: updateObjectData_def getAllObjectData_no_faults)
  have skip: "updateLoop (records store) False kp k newData store =
      updateLoop ((pk, v) # post) False kp k newData store"
    unfolding recs using updateLoop_skip[OF f pre] by simp
  have put: "put_record pk newData (records store) = pre @ (pk, newData) # post"
    unfolding recs using sorted recs put_record_in_place[of pre pk v post newData]
    by (simp add: sorted_keys_def)
  let ?s' = "store\<lparr>records := pre @ (pk, newData) # post\<rparr>"
  have cu: "cursor_update store pk newData = (Succeeded pk, ?s')"
    using cursor_update_accepted[OF f acc nv] put by simp
  have f': "faults ?s' = []" using f by simp
  have "updateLoop ((pk, v) # post) False kp k newData store = getAllObjectData ?s'"
    using f m cu by (simp add: next_event_no_faults)
  also have "\<dots> = (Resolved (map snd (records ?s')), ?s')"
    using f' by (rule getAllObjectData_no_faults)
  finally show ?thesis using up skip by simp
qed

text \<open>
  C6 (as amended). While the host reports no error: when no record has the value in the
  named field, \<open>updateObjectData\<close> rejects with the descriptive not-found error and
  leaves the store as it was; a cursor pass that meets no such record rejects as well
  (the two passes disagree); and when \<open>(pk, v)\<close> is the first record in ascending key
  order whose named field has the value, \<open>cursor.update\<close> accepts \<open>newData\<close> (in a store
  with a key path, \<open>newData\<close> holds \<open>pk\<close> there) and no unique index is violated,
  \<open>newData\<close> as a whole replaces the record under \<open>pk\<close>, every other record stays,
  and the operation resolves with all records.
\<close>

theorem update_first_match:
  assumes "faults store = []"
  shows "((\<forall>e \<in> set (records store). \<not> matches (snd e) kp k) \<longrightarrow>
      updateObjectData store kp k newData =
        (Rejected (IndexedDBError
           (''There's no object in the '' @ name store @ '' whose '' @ kp @ '' matches ''
              @ show_key k @ ''.'')), store)) \<and>
   (\<forall>entries. (\<forall>e \<in> set entries. \<not> matches (snd e) kp k) \<longrightarrow>
      updateLoop entries False kp k newData store =
        (Rejected (IndexedDBError
           (''Failed to locate object for update with '' @ kp @ ''='' @ show_key k)), store)) \<and>
   (\<forall>pre pk v post.
      records store = pre @ (pk, v) # post \<longrightarrow>
      (\<forall>e \<in> set pre. \<not> matches (snd e) kp k) \<longrightarrow> matches v kp k \<longrightarrow>
      sorted_keys store \<longrightarrow> update_accepted store pk newData \<longrightarrow>
      violated_index store pk newData = None \<longrightarrow>
        updateObjectData store kp k newData =
          (Resolved (map snd (pre @ (pk, newData) # post)),
           store\<lparr>records := pre @ (pk, newData) # post\<rparr>) \<and>
        (\<forall>e \<in> set pre. key_less (fst e) pk) \<and> (\<forall>e \<in> set post. key_less pk (fst e)))"
proof (intro conjI allI impI)
  assume "\<forall>e \<in> set (records store). \<not> matches (snd e) kp k"
  with assms show "updateObjectData store kp k newData =
        (Rejected (IndexedDBError
           (''There's no object in the '' @ name store @ '' whose '' @ kp @ '' matches ''
              @ show_key k @ ''.'')), store)"
    by (rule updateObjectData_no_match)
next
  fix entries :: "(key \<times> obj) list"
  assume "\<forall>e \<in> set entries. \<not> matches (snd e) kp k"
  with assms show "updateLoop entries False kp k newData store =
        (Rejected (IndexedDBError
           (''Failed to locate object for update with '' @ kp @ ''='' @ show_key k)), store)"
    by (rule updateLoop_no_match)
next
  fix pre pk v post
  assume a: "records store = pre @ (pk, v) # post"
    "\<forall>e \<in> set pre. \<not> matches (snd e) kp k" "matches v kp k"
    "sorted_keys store" "update_accepted store pk newData"
    "violated_index store pk newData = None"
  from updateObjectData_replaces[OF assms a]
  show "updateObjectData store kp k newData =
          (Resolved (map snd (pre @ (pk, newData) # post)),
           store\<lparr>records := pre @ (pk, newData) # post\<rparr>)" .
  from a(1,4) show "\<forall>e \<in> set pre. key_less (fst e) pk"
    by (auto simp: sorted_keys_def sorted_wrt_append)
  from a(1,4) show "\<forall>e \<in> set post. key_less pk (fst e)"
    by (auto simp: sorted_keys_def sorted_wrt_append)
qed

text \<open>
  The claim C6 as stated promises the replacement for every \<open>newData\<close>. In a store with
  key path \<open>id\<close>, a \<open>newData\<close> with another \<open>id\<close> makes \<open>cursor.update\<close> throw inside the
  handler: the record found is not replaced.
\<close>

theorem update_first_match_counterexample:
  "updateObjectData items_store ''name'' (KStr ''b'') [(''id'', VNum 7), (''name'', VStr ''z'')] =
     (Pending, abort items_store) \<and>
   matches [(''id'', VNum 2), (''name'', VStr ''b'')] ''name'' (KStr ''b'') \<and>
   map_of (records items_store) (KNum 2) = Some [(''id'', VNum 2), (''name'', VStr ''b'')] \<and>
   map_of (records (abort items_store)) (KNum 2) = Some [(''id'', VNum 2), (''name'', VStr ''b'')] \<and>
   [(''id'', VNum 7), (''name'', VStr ''z'')] \<notin> set (map snd (records (abort items_store)))"
  by (simp add: updateObjectData_def getAllObjectData_def idb_getAll_def next_event_def
      matches_def getProp_def cursor_update_def abort_def items_store_def)

theorem update_first_match_witness:
  "faults items_store = [] \<and> sorted_keys items_store \<and>
   updateObjectData items_store ''name'' (KStr ''zz'') [(''id'', VNum 2)] =
     (Rejected (IndexedDBError ''There's no object in the items whose name matches zz.''), items_store) \<and>
   updateLoop [] False ''name'' (KStr ''b'') [(''id'', VNum 2)] items_store =
     (Rejected (IndexedDBError ''Failed to locate object for update with name=b''), items_store) \<and>
   update_accepted items_store (KNum 2) [(''id'', VNum 2), (''name'', VStr ''z'')] \<and>
   fst (updateObjectData items_store ''name'' (KStr ''b'') [(''id'', VNum 2), (''name'', VStr ''z'')]) =
     Resolved [[(''id'', VNum 1), (''name'', VStr ''a'')],
               [(''id'', VNum 2), (''name'', VStr ''z'')],
               [(''id'', VNum 3), (''name'', VStr ''c'')]]"
proof -
  let ?new = "[(''id'', VNum 2), (''name'', VStr ''z'')]"
  have f: "faults items_store = []" by (simp add: items_store_def)
  have s: "sorted_keys items_store" by (simp add: sorted_keys_def items_store_def)
  have nm: "\<forall>e \<in> set (records items_store). \<not> matches (snd e) ''name'' (KStr ''zz'')"
    by (simp add: matches_def getProp_def items_store_def)
  have ne: "\<forall>e \<in> set ([] :: (key \<times> obj) list). \<not> matches (snd e) ''name'' (KStr ''b'')" by simp
  have r: "records items_store = [(KNum 1, [(''id'', VNum 1), (''name'', VStr ''a'')])] @
      (KNum 2, [(''id'', VNum 2), (''name'', VStr ''b'')]) # [(KNum 3, [(''id'', VNum 3), (''name'', VStr ''c'')])]"
    by (simp add: items_store_def)
  have p: "\<forall>e \<in> set [(KNum 1, [(''id'', VNum 1), (''name'', VStr ''a'')])]. \<not> matches (snd e) ''name'' (KStr ''b'')"
    by (simp add: matches_def getProp_def)
  have m: "matches [(''id'', VNum 2), (''name'', VStr ''b'')] ''name'' (KStr ''b'')"
    by (simp add: matches_def getProp_def)
  have a: "update_accepted items_store (KNum 2) ?new"
    by (simp add: update_accepted_def getProp_def items_store_def)
  have v: "violated_index items_store (KNum 2) ?new = None"
    by (simp add: violated_index_def items_store_def)
  note t = update_first_match[OF f]
  from t[of "''name''" "KStr ''zz''" "[(''id'', VNum 2)]"] nm
  have "updateObjectData items_store ''name'' (KStr ''zz'') [(''id'', VNum 2)] =
     (Rejected (IndexedDBError
        (''There's no object in the '' @ name items_store @ '' whose '' @ ''name'' @ '' matches ''
              @ show_key (KStr ''zz'') @ ''.'')), items_store)"
    by blast
  then have c1: "updateObjectData items_store ''name'' (KStr ''zz'') [(''id'', VNum 2)] =
     (Rejected (IndexedDBError ''There's no object in the items whose name matches zz.''), items_store)"
    by (simp add: items_store_def)
  from t[of "''name''" "KStr ''b''" "[(''id'', VNum 2)]"] ne
  have "updateLoop [] False ''name'' (KStr ''b'') [(''id'', VNum 2)] items_store =
     (Rejected (IndexedDBError
        (''Failed to locate object for update with '' @ ''name'' @ ''='' @ show_key (KStr ''b''))),
      items_store)"
    by blast
  then have c2: "updateLoop [] False ''name'' (KStr ''b'') [(''id'', VNum 2)] items_store =
     (Rejected (IndexedDBError ''Failed to locate object for update with name=b''), items_store)"
    by (simp del: updateLoop.simps)
  from t[of "''name''" "KStr ''b''" ?new] r p m s a v
  have "updateObjectData items_store ''name'' (KStr ''b'') ?new =
          (Resolved (map snd ([(KNum 1, [(''id'', VNum 1), (''name'', VStr ''a'')])] @ (KNum 2, ?new) #
              [(KNum 3, [(''id'', VNum 3), (''name'', VStr ''c'')])])),
           items_store\<lparr>records := [(KNum 1, [(''id'', VNum 1), (''name'', VStr ''a'')])] @ (KNum 2, ?new) #
              [(KNum 3, [(''id'', VNum 3), (''name'', VStr ''c'')])]\<rparr>)"
    by blast
  then have c3: "fst (updateObjectData items_store ''name'' (KStr ''b'') ?new) =
     Resolved [[(''id'', VNum 1), (''name'', VStr ''a'')], ?new, [(''id'', VNum 3), (''name'', VStr ''c'')]]"
    by simp
  from f s c1 c2 a c3 show ?thesis by (intro conjI)
qed

subsection \<open>The transaction helper\<close>

lemma find_store_filter:
  "nm \<in> S \<Longrightarrow> find_store (filter (\<lambda>s. name s \<in> S) ss) nm = find_store ss nm"
  by (induction ss) (auto simp: find_store_def)

lemma find_store_name: "find_store ss nm = Some s \<Longrightarrow> name s = nm"
  by (auto simp: find_store_def dest: find_Some_iff[THEN iffD1])

lemma find_store_handle:
  "find_store (map (\<lambda>s. s\<lparr>aborted := False\<rparr>) ss) nm =
     map_option (\<lambda>s. s\<lparr>aborted := False\<rparr>) (find_store ss nm)"
  by (induction ss) (auto simp: find_store_def)

lemma transaction_fresh:
  assumes "transaction h c storeNames m = Inr t"
  shows "\<not> finished t \<and> scope t = storeNames \<and>
    (\<exists>d. lookup_db h (conn_name c) = Some d \<and>
      (\<forall>n \<in> set storeNames.
          find_store (tx_stores t) n =
            map_option (\<lambda>s. s\<lparr>aborted := False\<rparr>) (find_store (objectStores d) n) \<and>
          find_store (objectStores d) n \<noteq> None))"
proof -
  from assms obtain d where d: "lookup_db h (conn_name c) = Some d"
    by (auto simp: transaction_def idb_transaction_def split: option.splits)
  from assms d have ex: "\<not> list_ex (\<lambda>nm. find_store (objectStores d) nm = None) storeNames"
    and t: "t = \<lparr>scope = storeNames, mode = m,
                   tx_stores = map (\<lambda>s. s\<lparr>aborted := False\<rparr>)
                     (filter (\<lambda>s. name s \<in> set storeNames) (objectStores d)),
                   finished = False\<rparr>"
    by (auto simp: transaction_def idb_transaction_def split: if_splits)
  from ex have "\<forall>n \<in> set storeNames. find_store (objectStores d) n \<noteq> None"
    by (simp add: list_ex_iff)
  with d t show ?thesis by (simp add: find_store_filter find_store_handle)
qed

text \<open>
  C9 (as amended). \<open>getStore\<close> rejects with a \<open>StoreNotFoundError\<close> for every name
  outside the scope of the transaction, and for every name the transaction has no store
  for; a transaction that has not finished resolves a name of its scope with the handle
  of the store of that name. The helper \<open>transaction\<close> only returns transactions that have
  not finished, whose scope is the list of names asked for, each the name of a store of
  the database; so the transaction it has just returned resolves every name of its scope
  with the handle of the database's store of that name.
\<close>

theorem getStore_scope:
  "(nm \<notin> set (scope t) \<longrightarrow> getStore t nm = Rejected (StoreNotFoundError nm)) \<and>
   (find_store (tx_stores t) nm = None \<longrightarrow> getStore t nm = Rejected (StoreNotFoundError nm)) \<and>
   (\<forall>s. \<not> finished t \<longrightarrow> nm \<in> set (scope t) \<longrightarrow> find_store (tx_stores t) nm = Some s \<longrightarrow>
      getStore t nm = Resolved s \<and> name s = nm) \<and>
   (\<forall>h c storeNames m. transaction h c storeNames m = Inr t \<longrightarrow>
      \<not> finished t \<and> scope t = storeNames \<and>
      (\<exists>d. lookup_db h (conn_name c) = Some d \<and>
        (\<forall>n \<in> set storeNames.
            find_store (tx_stores t) n =
              map_option (\<lambda>s. s\<lparr>aborted := False\<rparr>) (find_store (objectStores d) n) \<and>
            find_store (objectStores d) n \<noteq> None))) \<and>
   (\<forall>h c storeNames m. transaction h c storeNames m = Inr t \<longrightarrow> nm \<in> set storeNames \<longrightarrow>
      (\<exists>d s. lookup_db h (conn_name c) = Some d \<and> find_store (objectStores d) nm = Some s \<and>
         name s = nm \<and> getStore t nm = Resolved (s\<lparr>aborted := False\<rparr>)))"
proof (intro conjI allI impI)
  assume "nm \<notin> set (scope t)"
  then show "getStore t nm = Rejected (StoreNotFoundError nm)"
    by (simp add: getStore_def idb_objectStore_def instanceof_Error_def)
next
  assume "find_store (tx_stores t) nm = None"
  then show "getStore t nm = Rejected (StoreNotFoundError nm)"
    by (simp add: getStore_def idb_objectStore_def instanceof_Error_def)
next
  fix s
  assume a: "\<not> finished t" "nm \<in> set (scope t)" "find_store (tx_stores t) nm = Some s"
  then show "getStore t nm = Resolved s"
    by (simp add: getStore_def idb_objectStore_def)
  from a(3) show "name s = nm" by (rule find_store_name)
next
  fix h c storeNames m
  assume a: "transaction h c storeNames m = Inr t"
  from transaction_fresh[OF a] show "\<not> finished t" by blast
  from transaction_fresh[OF a] show "scope t = storeNames" by blast
  from transaction_fresh[OF a] show "\<exists>d. lookup_db h (conn_name c) = Some d \<and>
        (\<forall>n \<in> set storeNames.
            find_store (tx_stores t) n =
              map_option (\<lambda>s. s\<lparr>aborted := False\<rparr>) (find_store (objectStores d) n) \<and>
            find_store (objectStores d) n \<noteq> None)" by blast
next
  fix h c storeNames m
  assume a: "transaction h c storeNames m = Inr t" and n: "nm \<in> set storeNames"
  from transaction_fresh[OF a] n obtain d where
    f: "\<not> finished t" "scope t = storeNames" and d: "lookup_db h (conn_name c) = Some d" and
    t: "find_store (tx_stores t) nm =
          map_option (\<lambda>s. s\<lparr>aborted := False\<rparr>) (find_store (objectStores d) nm)" and
    e: "find_store (objectStores d) nm \<noteq> None"
    by blast
  from e obtain s where s: "find_store (objectStores d) nm = Some s" by blast
  from s have "name s = nm" by (rule find_store_name)
  moreover from f n t s have "getStore t nm = Resolved (s\<lparr>aborted := False\<rparr>)"
    by (simp add: getStore_def idb_objectStore_def)
  ultimately show "\<exists>d s. lookup_db h (conn_name c) = Some d \<and>
      find_store (objectStores d) nm = Some s \<and> name s = nm \<and>
      getStore t nm = Resolved (s\<lparr>aborted := False\<rparr>)"
    using d s by blast
qed

theorem getStore_scope_witness:
  "transaction shop_host \<lparr>conn_name = ''shop''\<rparr> [''users''] ReadOnly =
     Inr \<lparr>scope = [''users''], mode = ReadOnly, tx_stores = [users_store], finished = False\<rparr> \<and>
   getStore \<lparr>scope = [''users''], mode = ReadOnly, tx_stores = [users_store], finished = False\<rparr> ''items'' =
     Rejected (StoreNotFoundError ''items'') \<and>
   getStore \<lparr>scope = [''users''], mode = ReadOnly, tx_stores = [users_store], finished = False\<rparr> ''orders'' =
     Rejected (StoreNotFoundError ''orders'') \<and>
   getStore \<lparr>scope = [''users''], mode = ReadOnly, tx_stores = [users_store], finished = False\<rparr> ''users'' =
     Resolved users_store"
proof -
  let ?t = "\<lparr>scope = [''users''], mode = ReadOnly, tx_stores = [users_store], finished = False\<rparr>"
  have n: "name users_store = ''users''" "name items_store = ''items''"
    by (simp_all add: users_store_def items_store_def)
  have t: "transaction shop_host \<lparr>conn_name = ''shop''\<rparr> [''users''] ReadOnly = Inr ?t"
    by (simp add: transaction_def idb_transaction_def lookup_db_def shop_host_def find_store_def n
        users_store_def)
  have a: "''items'' \<notin> set (scope ?t)" by simp
  have b: "find_store (tx_stores ?t) ''orders'' = None" by (simp add: find_store_def n)
  have c: "\<not> finished ?t" "''users'' \<in> set (scope ?t)" "find_store (tx_stores ?t) ''users'' = Some users_store"
    by (simp_all add: find_store_def n)
  from getStore_scope[of "''items''" ?t] a
  have r1: "getStore ?t ''items'' = Rejected (StoreNotFoundError ''items'')" by blast
  from getStore_scope[of "''orders''" ?t] b
  have r2: "getStore ?t ''orders'' = Rejected (StoreNotFoundError ''orders'')" by blast
  from getStore_scope[of "''users''" ?t] c
  have r3: "getStore ?t ''users'' = Resolved users_store" by blast
  from t r1 r2 r3 show ?thesis by (intro conjI)
qed

text \<open>
  The claim C9 as stated promises the handle for every name in the scope of every
  transaction. Once the transaction has finished, here by the \<open>abort\<close> of its own handler,
  \<open>tx.objectStore\<close> throws an \<open>InvalidStateError\<close>, and \<open>getStore\<close> rejects with a
  \<open>StoreNotFoundError\<close> for the store \<open>users\<close>, which is in the scope and in the database.
\<close>

theorem getStore_scope_counterexample:
  "transaction shop_host \<lparr>conn_name = ''shop''\<rparr> [''users''] ReadOnly =
     Inr \<lparr>scope = [''users''], mode = ReadOnly, tx_stores = [users_store], finished = False\<rparr> \<and>
   abort_transaction
       \<lparr>scope = [''users''], mode = ReadOnly, tx_stores = [users_store], finished = False\<rparr> =
     \<lparr>scope = [''users''], mode = ReadOnly, tx_stores = [users_store], finished = True\<rparr> \<and>
   ''users'' \<in> set (scope \<lparr>scope = [''users''], mode = ReadOnly, tx_stores = [users_store],
                              finished = True\<rparr>) \<and>
   find_store (tx_stores \<lparr>scope = [''users''], mode = ReadOnly, tx_stores = [users_store],
                          finished = True\<rparr>) ''users'' = Some users_store \<and>
   getStore \<lparr>scope = [''users''], mode = ReadOnly, tx_stores = [users_store], finished = True\<rparr>
       ''users'' =
     Rejected (StoreNotFoundError ''users'')"
  by (simp add: transaction_def idb_transaction_def lookup_db_def shop_host_def find_store_def
      abort_transaction_def getStore_def idb_objectStore_def instanceof_Error_def
      users_store_def items_store_def)

subsection \<open>Seeding in createDB\<close>

lemma store_with_key_success:
  assumes "store_with_key s k v True = (Succeeded k', s')"
  shows "set (records s') = insert (k, v) (set (records s)) \<and> aborted s' = aborted s \<and>
    name s' = name s \<and> keyPath s' = keyPath s \<and> faults s' = faults s"
proof -
  from assms have nk: "\<not> has_key s k" and s': "s' = s\<lparr>records := put_record k v (records s)\<rparr>"
    by (auto simp: store_with_key_def split: if_splits option.splits)
  from nk have "put_record k v (records s) = insert_entry (k, v) (records s)"
    by (simp add: put_record_fresh has_key_def)
  with s' show ?thesis by (simp add: set_insert_entry)
qed

lemma getProp_inject_key:
  "getProp item ''id'' \<noteq> None \<Longrightarrow> getProp (inject_key kp k item) ''id'' = getProp item ''id''"
  by (cases kp) (auto simp: inject_key_def getProp_def map_add_def split: option.splits)

lemma getProp_item_value: "getProp (item_value item) ''id'' = Some (val_of_key (item_id item))"
  by (simp add: item_value_def getProp_def)

lemma store_record_success:
  assumes "store_record s ks item True = (Succeeded k, s')"
  shows "\<exists>v. set (records s') = insert (k, v) (set (records s)) \<and>
    (getProp item ''id'' \<noteq> None \<longrightarrow> getProp v ''id'' = getProp item ''id'') \<and>
    aborted s' = aborted s \<and> name s' = name s \<and> keyPath s' = keyPath s \<and>
    faults s' = tl (faults s)"
proof (cases "pending_fault s")
  case (Some e)
  with assms show ?thesis by (simp add: store_record_def next_event_cases)
next
  case None
  show ?thesis
  proof (cases ks)
    case (Explicit k0)
    with None assms
    have "store_with_key (update_generator (s\<lparr>faults := tl (faults s)\<rparr>) k0) k0 item True = (Succeeded k, s')"
      by (simp add: store_record_def next_event_cases)
    from store_with_key_success[OF this] have
      "set (records s') = insert (k0, item) (set (records s)) \<and> aborted s' = aborted s \<and>
       name s' = name s \<and> keyPath s' = keyPath s \<and> faults s' = tl (faults s)"
      by (cases k0) (simp_all add: update_generator_def)
    moreover from \<open>store_with_key _ k0 item True = (Succeeded k, s')\<close> have "k = k0"
      by (auto simp: store_with_key_def split: if_splits option.splits)
    ultimately show ?thesis by blast
  next
    case Generate
    let ?k = "KNum (keyGenerator s)"
    let ?v = "inject_key (keyPath s) ?k item"
    from None Generate assms have ng: "\<not> 2 ^ 53 < keyGenerator s"
      by (auto simp: store_record_def next_event_cases split: if_splits)
    with None Generate assms
    have sw: "store_with_key (s\<lparr>faults := tl (faults s), keyGenerator := keyGenerator s + 1\<rparr>) ?k ?v True =
        (Succeeded k, s')"
      by (simp add: store_record_def next_event_cases)
    from store_with_key_success[OF sw] have
      "set (records s') = insert (?k, ?v) (set (records s)) \<and> aborted s' = aborted s \<and>
       name s' = name s \<and> keyPath s' = keyPath s \<and> faults s' = tl (faults s)"
      by simp
    moreover from sw have "k = ?k"
      by (auto simp: store_with_key_def split: if_splits option.splits)
    moreover have "getProp item ''id'' \<noteq> None \<longrightarrow> getProp ?v ''id'' = getProp item ''id''"
      by (simp add: getProp_inject_key)
    ultimately show ?thesis by blast
  qed
qed

lemma process_adds_success:
  assumes "process_adds reqs i s = (Inr keys, s')"
  shows "set (records s) \<subseteq> set (records s') \<and> aborted s' = aborted s \<and> name s' = name s \<and>
    keyPath s' = keyPath s \<and>
    (\<forall>r \<in> set reqs. getProp (snd r) ''id'' \<noteq> None \<longrightarrow>
        getProp (snd r) ''id'' \<in> set (existing_ids (map snd (records s'))))"
  using assms
proof (induction reqs arbitrary: i s keys)
  case Nil
  then show ?case by simp
next
  case (Cons r reqs)
  obtain ks item where r: "r = (ks, item)" by (cases r)
  from Cons.prems r obtain k s1 keys' where
    sr: "store_record s ks item True = (Succeeded k, s1)" and
    pa: "process_adds reqs (i + 1) s1 = (Inr keys', s')"
    by (auto split: prod.splits request.splits sum.splits)
  from store_record_success[OF sr] obtain v where
    v: "set (records s1) = insert (k, v) (set (records s))"
    "getProp item ''id'' \<noteq> None \<longrightarrow> getProp v ''id'' = getProp item ''id''"
    "aborted s1 = aborted s" "name s1 = name s" "keyPath s1 = keyPath s"
    by blast
  from Cons.IH[OF pa] v(5) have ih: "set (records s1) \<subseteq> set (records s')" "aborted s' = aborted s1"
    "name s' = name s1" "keyPath s' = keyPath s"
    "\<forall>r \<in> set reqs. getProp (snd r) ''id'' \<noteq> None \<longrightarrow>
        getProp (snd r) ''id'' \<in> set (existing_ids (map snd (records s')))"
    by simp_all
  have "getProp item ''id'' \<noteq> None \<longrightarrow> getProp item ''id'' \<in> set (existing_ids (map snd (records s')))"
  proof
    assume a: "getProp item ''id'' \<noteq> None"
    from v(1) ih(1) have "(k, v) \<in> set (records s')" by auto
    then have "getProp v ''id'' \<in> set (existing_ids (map snd (records s')))"
      by (force simp: existing_ids_def)
    with v(2) a show "getProp item ''id'' \<in> set (existing_ids (map snd (records s')))" by simp
  qed
  with v ih r show ?case by auto
qed

lemma issue_adds_items: "issue_adds s items = (reqs, None) \<Longrightarrow> map snd reqs = items"
  by (induction items arbitrary: reqs) (auto split: sum.splits prod.splits)

lemma idb_getAll_Succeeded:
  "idb_getAll s = (Succeeded xs, s1) \<Longrightarrow>
   xs = map snd (records s) \<and> records s1 = records s \<and> aborted s1 = aborted s \<and> name s1 = name s \<and>
   keyPath s1 = keyPath s"
  by (cases "pending_fault s") (auto simp: idb_getAll_def next_event_cases)

lemma seedStore_success:
  assumes "seedStore store items = (None, s')" and "\<not> aborted store"
  shows "set (records store) \<subseteq> set (records s') \<and> name s' = name store \<and>
    keyPath s' = keyPath store \<and> \<not> aborted s' \<and>
    (\<forall>item \<in> set items.
        Some (val_of_key (item_id item)) \<in> set (existing_ids (map snd (records s'))))"
proof -
  let ?new = "\<lambda>xs. filter (\<lambda>item. Some (val_of_key (item_id item)) \<notin> set (existing_ids xs)) items"
  from assms(1) obtain xs s1 where ga: "idb_getAll store = (Succeeded xs, s1)"
    by (auto simp: seedStore_def split: prod.splits request.splits)
  from idb_getAll_Succeeded[OF ga] have s1: "xs = map snd (records store)"
    "records s1 = records store" "aborted s1 = aborted store" "name s1 = name store"
    "keyPath s1 = keyPath store"
    by simp_all
  from assms(1) ga obtain reqs keys s2 where
    ia: "issue_adds s1 (map item_value (?new xs)) = (reqs, None)" and
    pa: "process_adds reqs 0 s1 = (Inr keys, s2)" and
    s': "s' = end_transaction store s2"
    by (auto simp: seedStore_def split: prod.splits option.splits sum.splits)
  from process_adds_success[OF pa] s1(5) have p: "set (records s1) \<subseteq> set (records s2)"
    "aborted s2 = aborted s1" "name s2 = name s1" "keyPath s2 = keyPath store"
    "\<forall>r \<in> set reqs. getProp (snd r) ''id'' \<noteq> None \<longrightarrow>
        getProp (snd r) ''id'' \<in> set (existing_ids (map snd (records s2)))"
    by simp_all
  from s' p(2) s1(3) assms(2) have e: "s' = s2" by (simp add: end_transaction_def)
  have ids: "\<forall>item \<in> set items.
        Some (val_of_key (item_id item)) \<in> set (existing_ids (map snd (records s2)))"
  proof
    fix item
    assume i: "item \<in> set items"
    show "Some (val_of_key (item_id item)) \<in> set (existing_ids (map snd (records s2)))"
    proof (cases "Some (val_of_key (item_id item)) \<in> set (existing_ids xs)")
      case True
      with s1(1,2) p(1) show ?thesis by (auto simp: existing_ids_def)
    next
      case False
      with i have "item_value item \<in> set (map item_value (?new xs))" by simp
      with issue_adds_items[OF ia] have "item_value item \<in> snd ` set reqs" by (metis set_map)
      with p(5) show ?thesis by (auto simp: getProp_item_value)
    qed
  qed
  from e p s1 assms(2) ids show ?thesis by simp
qed

lemma seedStore_noop:
  assumes "faults store = []" and "\<not> aborted store"
    and "list_all (\<lambda>item. Some (val_of_key (item_id item)) \<in>
                            set (existing_ids (map snd (records store)))) items"
  shows "seedStore store items = (None, store)"
proof -
  from assms(3) have
    "filter (\<lambda>item. Some (val_of_key (item_id item)) \<notin>
                       set (existing_ids (map snd (records store)))) items = []"
    by (simp add: list_all_iff filter_empty_conv)
  with assms(1,2) show ?thesis
    by (simp add: seedStore_def idb_getAll_def next_event_no_faults end_transaction_def)
qed

lemma map_of_put_db: "map_of (put_db dbs nm d) = (map_of dbs)(nm \<mapsto> d)"
  by (induction dbs) auto

lemma lookup_update_db_same [simp]: "lookup_db (update_db h nm d) nm = Some d"
  by (simp add: lookup_db_def update_db_def map_of_put_db)

lemma lookup_update_db: "lookup_db (update_db h nm d) nm' = (if nm' = nm then Some d else lookup_db h nm')"
  by (simp add: lookup_db_def update_db_def map_of_put_db)

lemma put_db_same: "map_of dbs nm = Some d \<Longrightarrow> put_db dbs nm d = dbs"
  by (induction dbs) (auto split: if_splits)

lemma update_db_same: "lookup_db h nm = Some d \<Longrightarrow> update_db h nm d = h"
  by (simp add: lookup_db_def update_db_def put_db_same)

lemma supported_update_db [simp]: "supported (update_db h nm d) = supported h"
  by (simp add: update_db_def)

lemma find_store_replace:
  "find_store ss (name s') \<noteq> None \<Longrightarrow>
   find_store (replace_store ss s') nm = (if nm = name s' then Some s' else find_store ss nm)"
  by (induction ss) (auto simp: find_store_def)

lemma replace_store_same: "find_store ss (name s) = Some s \<Longrightarrow> replace_store ss s = ss"
  by (induction ss) (auto simp: find_store_def split: if_splits)

lemma find_store_Some_name: "find_store ss nm = Some s \<Longrightarrow> name s = nm"
  by (induction ss) (auto simp: find_store_def split: if_splits)

text \<open>The handle on which the seeding loop works for a store of the database.\<close>

lemma seed_handle:
  assumes "lookup_db h (conn_name c) = Some d" and "find_store (objectStores d) nm = Some s"
  shows "\<exists>t. idb_transaction h c [nm] ReadWrite = Inr t \<and>
    idb_objectStore t nm = Inr (s\<lparr>aborted := False\<rparr>)"
proof -
  from assms(2) have n: "name s = nm" by (rule find_store_Some_name)
  let ?t = "\<lparr>scope = [nm], mode = ReadWrite,
             tx_stores = map (\<lambda>s. s\<lparr>aborted := False\<rparr>) (filter (\<lambda>s. name s \<in> set [nm]) (objectStores d)),
             finished = False\<rparr>"
  have t: "idb_transaction h c [nm] ReadWrite = Inr ?t"
    using assms by (simp add: idb_transaction_def)
  have "find_store (tx_stores ?t) nm = Some (s\<lparr>aborted := False\<rparr>)"
    using assms(2) find_store_filter[of nm "set [nm]" "objectStores d"]
    by (simp add: find_store_handle)
  then have "idb_objectStore ?t nm = Inr (s\<lparr>aborted := False\<rparr>)"
    by (simp add: idb_objectStore_def)
  with t show ?thesis by blast
qed

lemma seed_stores_Cons_found:
  assumes "lookup_db h (conn_name c) = Some d" and "find_store (objectStores d) (cfg_name cfg) = Some s"
  shows "seed_stores h c (cfg # rest) =
    (case seedStore (s\<lparr>aborted := False\<rparr>) (cfg_data cfg) of
       (Some err, s') \<Rightarrow> (Some err, write_store h c s')
     | (None, s') \<Rightarrow> seed_stores (write_store h c s') c rest)"
proof -
  from seed_handle[OF assms] obtain t where
    "idb_transaction h c [cfg_name cfg] ReadWrite = Inr t"
    "idb_objectStore t (cfg_name cfg) = Inr (s\<lparr>aborted := False\<rparr>)" by blast
  then show ?thesis by simp
qed

lemma seed_stores_Cons_None:
  assumes "seed_stores h c (cfg # rest) = (None, h')"
  shows "\<exists>d s s'. lookup_db h (conn_name c) = Some d \<and>
     find_store (objectStores d) (cfg_name cfg) = Some s \<and>
     seedStore (s\<lparr>aborted := False\<rparr>) (cfg_data cfg) = (None, s') \<and>
     seed_stores (write_store h c s') c rest = (None, h')"
proof -
  from assms obtain t where t: "idb_transaction h c [cfg_name cfg] ReadWrite = Inr t"
    by (auto split: sum.splits)
  then obtain d where d: "lookup_db h (conn_name c) = Some d"
    by (auto simp: idb_transaction_def split: option.splits)
  from t d have "find_store (objectStores d) (cfg_name cfg) \<noteq> None"
    by (auto simp: idb_transaction_def split: if_splits)
  then obtain s where s: "find_store (objectStores d) (cfg_name cfg) = Some s" by blast
  from assms seed_stores_Cons_found[OF d s, of rest]
  obtain s' where "seedStore (s\<lparr>aborted := False\<rparr>) (cfg_data cfg) = (None, s')"
    "seed_stores (write_store h c s') c rest = (None, h')"
    by (auto split: prod.splits option.splits)
  with d s show ?thesis by blast
qed

lemma write_store_lookup:
  assumes "lookup_db h (conn_name c) = Some d"
  shows "lookup_db (write_store h c s') (conn_name c) =
      Some (d\<lparr>objectStores := replace_store (objectStores d) s'\<rparr>)"
    and "supported (write_store h c s') = supported h"
  using assms by (simp_all add: write_store_def)

lemma seeded_step:
  assumes d: "lookup_db h (conn_name c) = Some d"
    and s: "find_store (objectStores d) (cfg_name cfg) = Some s"
    and seed: "seedStore (s\<lparr>aborted := False\<rparr>) (cfg_data cfg) = (None, s')"
    and before: "seeded h c cfg0"
  shows "seeded (write_store h c s') c cfg0"
proof -
  from seedStore_success[OF seed] have g: "set (records s) \<subseteq> set (records s')"
    "name s' = name s" "\<not> aborted s'" by simp_all
  from s have n: "name s = cfg_name cfg" by (rule find_store_Some_name)
  from before d obtain s0 where s0: "find_store (objectStores d) (cfg_name cfg0) = Some s0"
    "\<not> aborted s0"
    "list_all (\<lambda>item. Some (val_of_key (item_id item)) \<in>
                         set (existing_ids (map snd (records s0)))) (cfg_data cfg0)"
    by (auto simp: seeded_def split: option.splits)
  have f: "find_store (replace_store (objectStores d) s') (cfg_name cfg0) =
      (if cfg_name cfg0 = name s' then Some s' else find_store (objectStores d) (cfg_name cfg0))"
    using s g(2) n by (simp add: find_store_replace)
  show ?thesis
  proof (cases "cfg_name cfg0 = name s'")
    case True
    with s s0(1) g(2) n have "s0 = s" by simp
    with s0(3) g(1) have
      "list_all (\<lambda>item. Some (val_of_key (item_id item)) \<in>
                           set (existing_ids (map snd (records s')))) (cfg_data cfg0)"
      by (auto simp: list_all_iff existing_ids_def)
    with True f g(3) d show ?thesis
      by (simp add: seeded_def write_store_lookup)
  next
    case False
    with f s0 d show ?thesis by (simp add: seeded_def write_store_lookup)
  qed
qed

lemma seeded_after_seedStore:
  assumes d: "lookup_db h (conn_name c) = Some d"
    and s: "find_store (objectStores d) (cfg_name cfg) = Some s"
    and seed: "seedStore (s\<lparr>aborted := False\<rparr>) (cfg_data cfg) = (None, s')"
  shows "seeded (write_store h c s') c cfg"
proof -
  from seedStore_success[OF seed] have g: "name s' = name s" "\<not> aborted s'"
    "\<forall>item \<in> set (cfg_data cfg).
        Some (val_of_key (item_id item)) \<in> set (existing_ids (map snd (records s')))" by simp_all
  from s have n: "name s = cfg_name cfg" by (rule find_store_Some_name)
  from g(3) have
    "list_all (\<lambda>item. Some (val_of_key (item_id item)) \<in>
                         set (existing_ids (map snd (records s')))) (cfg_data cfg)"
    by (simp add: list_all_iff)
  moreover have "find_store (replace_store (objectStores d) s') (cfg_name cfg) = Some s'"
    using s g(1) n by (simp add: find_store_replace)
  ultimately show ?thesis using d g(2) by (simp add: seeded_def write_store_lookup)
qed

lemma seed_stores_keeps_seeded:
  "seed_stores h c cfgs = (None, h') \<Longrightarrow> seeded h c cfg0 \<Longrightarrow> seeded h' c cfg0"
proof (induction cfgs arbitrary: h)
  case Nil
  then show ?case by simp
next
  case (Cons cfg rest)
  from seed_stores_Cons_None[OF Cons.prems(1)] obtain d s s' where
    d: "lookup_db h (conn_name c) = Some d" and
    s: "find_store (objectStores d) (cfg_name cfg) = Some s" and
    seed: "seedStore (s\<lparr>aborted := False\<rparr>) (cfg_data cfg) = (None, s')" and
    rest: "seed_stores (write_store h c s') c rest = (None, h')"
    by blast
  from seeded_step[OF d s seed Cons.prems(2)] have "seeded (write_store h c s') c cfg0" .
  from Cons.IH[OF rest this] show ?case .
qed

lemma seed_stores_seeded:
  "seed_stores h c cfgs = (None, h') \<Longrightarrow> list_all (seeded h' c) cfgs"
proof (induction cfgs arbitrary: h)
  case Nil
  then show ?case by simp
next
  case (Cons cfg rest)
  from seed_stores_Cons_None[OF Cons.prems] obtain d s s' where
    d: "lookup_db h (conn_name c) = Some d" and
    s: "find_store (objectStores d) (cfg_name cfg) = Some s" and
    seed: "seedStore (s\<lparr>aborted := False\<rparr>) (cfg_data cfg) = (None, s')" and
    rest: "seed_stores (write_store h c s') c rest = (None, h')"
    by blast
  from seeded_after_seedStore[OF d s seed] have "seeded (write_store h c s') c cfg" .
  from seed_stores_keeps_seeded[OF rest this] have "seeded h' c cfg" .
  with Cons.IH[OF rest] show ?case by simp
qed

lemma find_store_in_set: "find_store ss nm = Some s \<Longrightarrow> s \<in> set ss"
  by (induction ss) (auto simp: find_store_def split: if_splits)

lemma seed_stores_noop:
  assumes "lookup_db h (conn_name c) = Some d" and "quiet d"
  shows "list_all (seeded h c) cfgs \<Longrightarrow> seed_stores h c cfgs = (None, h)"
proof (induction cfgs)
  case Nil
  then show ?case by simp
next
  case (Cons cfg rest)
  from Cons.prems assms(1) obtain s where
    s: "find_store (objectStores d) (cfg_name cfg) = Some s" and na: "\<not> aborted s" and
    ids: "list_all (\<lambda>item. Some (val_of_key (item_id item)) \<in>
                              set (existing_ids (map snd (records s)))) (cfg_data cfg)"
    by (auto simp: seeded_def split: option.splits)
  from na have h: "s\<lparr>aborted := False\<rparr> = s" by simp
  from find_store_in_set[OF s] assms(2) have f: "faults s = []"
    by (simp add: quiet_def list_all_iff)
  have seed: "seedStore s (cfg_data cfg) = (None, s)"
    using f na ids by (rule seedStore_noop)
  from s have "name s = cfg_name cfg" by (rule find_store_Some_name)
  with s have "replace_store (objectStores d) s = objectStores d"
    by (simp add: replace_store_same)
  with assms(1) have w: "write_store h c s = h"
    by (simp add: write_store_def update_db_same)
  from Cons.prems have "list_all (seeded h c) rest" by simp
  with Cons.IH have "seed_stores h c rest = (None, h)" by simp
  with seed_stores_Cons_found[OF assms(1) s, of rest] h seed w show ?case by simp
qed

lemma idb_open_success:
  assumes "idb_open h nm ver up = (OpenSuccess c, h')"
  shows "c = \<lparr>conn_name = nm\<rparr> \<and> ver \<noteq> 0 \<and> supported h' = supported h \<and>
    (\<exists>d. lookup_db h' nm = Some d \<and> version d = ver)"
  using assms
  by (auto simp: idb_open_def split: if_splits option.splits sum.splits)

lemma idb_open_same_version:
  assumes "lookup_db h nm = Some d" and "version d = ver" and "ver \<noteq> 0"
  shows "idb_open h nm ver up =
    (OpenSuccess \<lparr>conn_name = nm\<rparr>, update_db h nm (d\<lparr>connections := connections d + 1\<rparr>))"
  using assms by (simp add: idb_open_def)

lemma seed_stores_keeps_version:
  "seed_stores h c cfgs = (r, h') \<Longrightarrow> lookup_db h (conn_name c) = Some d \<Longrightarrow>
   supported h' = supported h \<and>
   (\<exists>d'. lookup_db h' (conn_name c) = Some d' \<and> version d' = version d)"
proof (induction cfgs arbitrary: h d)
  case Nil
  then show ?case by simp
next
  case (Cons cfg rest)
  show ?case
  proof (cases "find_store (objectStores d) (cfg_name cfg)")
    case None
    with Cons.prems have "h' = h"
      by (auto simp: idb_transaction_def split: sum.splits if_splits)
    with Cons.prems(2) show ?thesis by simp
  next
    case (Some s)
    obtain e s' where seed: "seedStore (s\<lparr>aborted := False\<rparr>) (cfg_data cfg) = (e, s')"
      by fastforce
    let ?h1 = "write_store h c s'"
    from write_store_lookup[OF Cons.prems(2), of s'] have
      l: "lookup_db ?h1 (conn_name c) = Some (d\<lparr>objectStores := replace_store (objectStores d) s'\<rparr>)"
      and sup: "supported ?h1 = supported h" by simp_all
    show ?thesis
    proof (cases e)
      case None
      with Cons.prems(1) seed seed_stores_Cons_found[OF Cons.prems(2) Some, of rest]
      have "seed_stores ?h1 c rest = (r, h')" by simp
      from Cons.IH[OF this l] sup show ?thesis by simp
    next
      case (Some err)
      with Cons.prems(1) seed seed_stores_Cons_found[OF Cons.prems(2) \<open>find_store _ _ = Some s\<close>, of rest]
      have "h' = ?h1" by simp
      with l sup show ?thesis by simp
    qed
  qed
qed

lemma createDB_success:
  assumes "createDB h nm ver cfgs = (Inr (Resolved c), h1)"
  shows "c = \<lparr>conn_name = nm\<rparr> \<and> ver \<noteq> 0 \<and> supported h1 \<and>
    (\<exists>d. lookup_db h1 nm = Some d \<and> version d = ver) \<and>
    list_all (seeded h1 c) (storesWithData cfgs)"
proof -
  from assms have sup: "supported h"
    by (auto simp: createDB_def split: if_splits)
  from assms sup obtain h' where op: "idb_open h nm ver (onupgradeneeded cfgs) = (OpenSuccess c, h')"
    by (auto simp: createDB_def split: prod.splits open_result.splits if_splits option.splits)
  from idb_open_success[OF op] sup obtain d where
    c: "c = \<lparr>conn_name = nm\<rparr>" and v: "ver \<noteq> 0" and sup': "supported h'" and
    d: "lookup_db h' nm = Some d" "version d = ver" by auto
  show ?thesis
  proof (cases "storesWithData cfgs = []")
    case True
    with assms sup op have "h1 = h'"
      by (auto simp: createDB_def storesWithData_def split: if_splits)
    with c v sup' d True show ?thesis by simp
  next
    case False
    then have ne: "cfgs \<noteq> []" by (auto simp: storesWithData_def)
    with assms sup op False have seed: "seed_stores h' c (storesWithData cfgs) = (None, h1)"
      by (auto simp: createDB_def storesWithData_def split: if_splits prod.splits option.splits)
    from d c have d': "lookup_db h' (conn_name c) = Some d" by simp
    from seed_stores_keeps_version[OF seed d'] sup' c d(2)
    have "supported h1" "\<exists>d1. lookup_db h1 nm = Some d1 \<and> version d1 = ver" by auto
    with seed_stores_seeded[OF seed] c v show ?thesis by simp
  qed
qed

lemma seeded_connections:
  "lookup_db h (conn_name c) = Some d \<Longrightarrow>
   seeded (update_db h (conn_name c) (d\<lparr>connections := n\<rparr>)) c cfg = seeded h c cfg"
  by (simp add: seeded_def)

lemma store_with_key_added:
  assumes "store_with_key s k v True = (Succeeded k', s')"
  shows "k' = k \<and> \<not> has_key s k \<and> keyPath s' = keyPath s"
  using assms by (auto simp: store_with_key_def split: if_splits option.splits)

lemma store_record_added:
  assumes "store_record s ks item True = (Succeeded k, s')"
  shows "\<not> has_key s k \<and> keyPath s' = keyPath s \<and>
    (\<exists>v. set (records s') = insert (k, v) (set (records s)) \<and>
         (v = item \<or> v = inject_key (keyPath s) k item))"
proof (cases "pending_fault s")
  case (Some e)
  with assms show ?thesis by (simp add: store_record_def next_event_cases)
next
  case None
  show ?thesis
  proof (cases ks)
    case (Explicit k0)
    with None assms
    have sw: "store_with_key (update_generator (s\<lparr>faults := tl (faults s)\<rparr>) k0) k0 item True = (Succeeded k, s')"
      by (simp add: store_record_def next_event_cases)
    from store_with_key_added[OF sw] have "k = k0" "\<not> has_key s k" "keyPath s' = keyPath s"
      by (simp_all add: has_key_def)
    moreover from store_with_key_success[OF sw] have "set (records s') = insert (k0, item) (set (records s))"
      by simp
    ultimately show ?thesis by blast
  next
    case Generate
    let ?k = "KNum (keyGenerator s)"
    let ?v = "inject_key (keyPath s) ?k item"
    from None Generate assms have ng: "\<not> 2 ^ 53 < keyGenerator s"
      by (auto simp: store_record_def next_event_cases split: if_splits)
    with None Generate assms
    have sw: "store_with_key (s\<lparr>faults := tl (faults s), keyGenerator := keyGenerator s + 1\<rparr>) ?k ?v True =
        (Succeeded k, s')"
      by (simp add: store_record_def next_event_cases)
    from store_with_key_added[OF sw] have "k = ?k" "\<not> has_key s k" "keyPath s' = keyPath s"
      by (simp_all add: has_key_def)
    moreover from store_with_key_success[OF sw] have "set (records s') = insert (?k, ?v) (set (records s))"
      by simp
    ultimately show ?thesis by blast
  qed
qed

lemma process_adds_added:
  assumes "process_adds reqs i s = (Inr keys, s')"
  shows "\<forall>kv \<in> set (records s'). kv \<in> set (records s) \<or>
    (\<not> has_key s (fst kv) \<and>
     (\<exists>r \<in> set reqs. snd kv = snd r \<or> snd kv = inject_key (keyPath s) (fst kv) (snd r)))"
  using assms
proof (induction reqs arbitrary: i s keys)
  case Nil
  then show ?case by simp
next
  case (Cons r reqs)
  obtain ks item where r: "r = (ks, item)" by (cases r)
  from Cons.prems r obtain k s1 keys' where
    sr: "store_record s ks item True = (Succeeded k, s1)" and
    pa: "process_adds reqs (i + 1) s1 = (Inr keys', s')"
    by (auto split: prod.splits request.splits sum.splits)
  from store_record_added[OF sr] obtain v where
    a: "\<not> has_key s k" "keyPath s1 = keyPath s"
    "set (records s1) = insert (k, v) (set (records s))"
    "v = item \<or> v = inject_key (keyPath s) k item"
    by blast
  show ?case
  proof
    fix kv
    assume "kv \<in> set (records s')"
    with Cons.IH[OF pa] have
      "kv \<in> set (records s1) \<or>
       (\<not> has_key s1 (fst kv) \<and>
        (\<exists>r \<in> set reqs. snd kv = snd r \<or> snd kv = inject_key (keyPath s1) (fst kv) (snd r)))"
      by blast
    then show "kv \<in> set (records s) \<or>
      (\<not> has_key s (fst kv) \<and>
       (\<exists>r \<in> set (r # reqs). snd kv = snd r \<or> snd kv = inject_key (keyPath s) (fst kv) (snd r)))"
    proof
      assume "kv \<in> set (records s1)"
      with a(3) have "kv = (k, v) \<or> kv \<in> set (records s)" by auto
      then show ?thesis
      proof
        assume "kv = (k, v)"
        with a(1,4) r show ?thesis by auto
      next
        assume "kv \<in> set (records s)"
        then show ?thesis by simp
      qed
    next
      assume b: "\<not> has_key s1 (fst kv) \<and>
        (\<exists>r \<in> set reqs. snd kv = snd r \<or> snd kv = inject_key (keyPath s1) (fst kv) (snd r))"
      with a(3) have "\<not> has_key s (fst kv)" by (auto simp: has_key_def)
      with b a(2) show ?thesis by auto
    qed
  qed
qed

lemma seedStore_inserts_only_absent:
  assumes "seedStore store items = (None, s')" and "\<not> aborted store"
  shows "\<forall>kv \<in> set (records s'). kv \<in> set (records store) \<or>
    (\<not> has_key store (fst kv) \<and>
     (\<exists>item \<in> set items.
        Some (val_of_key (item_id item)) \<notin> set (existing_ids (map snd (records store))) \<and>
        (snd kv = item_value item \<or>
         snd kv = inject_key (keyPath store) (fst kv) (item_value item))))"
proof -
  let ?new = "\<lambda>xs. filter (\<lambda>item. Some (val_of_key (item_id item)) \<notin> set (existing_ids xs)) items"
  from assms(1) obtain xs s1 where ga: "idb_getAll store = (Succeeded xs, s1)"
    by (auto simp: seedStore_def split: prod.splits request.splits)
  from idb_getAll_Succeeded[OF ga] have s1: "xs = map snd (records store)"
    "records s1 = records store" "aborted s1 = aborted store" by simp_all
  from ga have kp: "keyPath s1 = keyPath store"
    by (cases "pending_fault store") (auto simp: idb_getAll_def next_event_cases)
  from assms(1) ga obtain reqs keys s2 where
    ia: "issue_adds s1 (map item_value (?new xs)) = (reqs, None)" and
    pa: "process_adds reqs 0 s1 = (Inr keys, s2)" and
    s': "s' = end_transaction store s2"
    by (auto simp: seedStore_def split: prod.splits option.splits sum.splits)
  from process_adds_success[OF pa] s1(3) assms(2) s' have e: "s' = s2"
    by (simp add: end_transaction_def)
  have reqs: "snd ` set reqs = item_value ` set (?new xs)"
    using issue_adds_items[OF ia] by (metis set_map)
  show ?thesis
  proof
    fix kv
    assume "kv \<in> set (records s')"
    with e process_adds_added[OF pa] have
      "kv \<in> set (records s1) \<or>
       (\<not> has_key s1 (fst kv) \<and>
        (\<exists>r \<in> set reqs. snd kv = snd r \<or> snd kv = inject_key (keyPath s1) (fst kv) (snd r)))"
      by blast
    then show "kv \<in> set (records store) \<or>
      (\<not> has_key store (fst kv) \<and>
       (\<exists>item \<in> set items.
          Some (val_of_key (item_id item)) \<notin> set (existing_ids (map snd (records store))) \<and>
          (snd kv = item_value item \<or>
           snd kv = inject_key (keyPath store) (fst kv) (item_value item))))"
    proof
      assume "kv \<in> set (records s1)"
      with s1(2) show ?thesis by simp
    next
      assume b: "\<not> has_key s1 (fst kv) \<and>
        (\<exists>r \<in> set reqs. snd kv = snd r \<or> snd kv = inject_key (keyPath s1) (fst kv) (snd r))"
      then obtain r where r: "r \<in> set reqs"
        "snd kv = snd r \<or> snd kv = inject_key (keyPath s1) (fst kv) (snd r)" by blast
      from r(1) reqs obtain item where i: "item \<in> set (?new xs)" "snd r = item_value item"
        by blast
      then have "item \<in> set items"
        "Some (val_of_key (item_id item)) \<notin> set (existing_ids (map snd (records store)))"
        using s1(1) by simp_all
      moreover from b s1(2) have "\<not> has_key store (fst kv)" by (simp add: has_key_def)
      ultimately show ?thesis using r(2) i(2) kp by auto
    qed
  qed
qed

text \<open>
  C5. Seeding is idempotent. When \<open>createDB\<close> has resolved and left the host in \<open>h1\<close>,
  and the host has no failure scheduled for the stores of the database, a second
  \<open>createDB\<close> with the same name, version and configuration resolves with the same
  connection and changes no store, whatever the stores and their initial records are:
  the database only counts one more open connection. And whenever the seeding of a
  store succeeds, every record of the store afterwards was there before or is an initial
  record whose \<open>id\<close> was not among the \<open>id\<close>s of the stored records and whose primary key
  was not in the store.
\<close>

theorem seeding_idempotent:
  assumes first: "createDB h nm ver cfgs = (Inr (Resolved c), h1)"
    and d1: "lookup_db h1 nm = Some d1"
    and q: "quiet d1"
  shows "createDB h1 nm ver cfgs =
      (Inr (Resolved c), update_db h1 nm (d1\<lparr>connections := connections d1 + 1\<rparr>)) \<and>
    (\<forall>store items s'. seedStore store items = (None, s') \<longrightarrow> \<not> aborted store \<longrightarrow>
       (\<forall>kv \<in> set (records s'). kv \<in> set (records store) \<or>
          (\<not> has_key store (fst kv) \<and>
           (\<exists>item \<in> set items.
              Some (val_of_key (item_id item)) \<notin> set (existing_ids (map snd (records store))) \<and>
              (snd kv = item_value item \<or>
               snd kv = inject_key (keyPath store) (fst kv) (item_value item))))))"
proof (intro conjI allI impI)
  from createDB_success[OF first] d1 have
    c: "c = \<lparr>conn_name = nm\<rparr>" and v: "ver \<noteq> 0" and sup: "supported h1" and
    ver: "version d1 = ver" and sd: "list_all (seeded h1 c) (storesWithData cfgs)"
    by auto
  let ?d2 = "d1\<lparr>connections := connections d1 + 1\<rparr>"
  let ?h2 = "update_db h1 nm ?d2"
  have op: "idb_open h1 nm ver (onupgradeneeded cfgs) = (OpenSuccess c, ?h2)"
    using idb_open_same_version[OF d1 ver v] c by simp
  have l2: "lookup_db ?h2 (conn_name c) = Some ?d2" using c by simp
  have q2: "quiet ?d2" using q by (simp add: quiet_def)
  from d1 c have "lookup_db h1 (conn_name c) = Some d1" by simp
  from seeded_connections[OF this] sd c
  have sd2: "list_all (seeded ?h2 c) (storesWithData cfgs)"
    by (simp add: list_all_iff)
  from seed_stores_noop[OF l2 q2 sd2]
  have "seed_stores ?h2 c (storesWithData cfgs) = (None, ?h2)" .
  with sup op show "createDB h1 nm ver cfgs = (Inr (Resolved c), ?h2)"
    by (simp add: createDB_def storesWithData_def)
next
  fix store items s'
  assume "seedStore store items = (None, s')" "\<not> aborted store"
  then show "\<forall>kv \<in> set (records s'). kv \<in> set (records store) \<or>
          (\<not> has_key store (fst kv) \<and>
           (\<exists>item \<in> set items.
              Some (val_of_key (item_id item)) \<notin> set (existing_ids (map snd (records store))) \<and>
              (snd kv = item_value item \<or>
               snd kv = inject_key (keyPath store) (fst kv) (item_value item))))"
    by (rule seedStore_inserts_only_absent)
qed

theorem seeding_idempotent_witness:
  "createDB fresh_host ''test-db'' 1 test_stores =
     (Inr (Resolved \<lparr>conn_name = ''test-db''\<rparr>),
      \<lparr>supported = True, databases = [(''test-db'', test_db)]\<rparr>) \<and>
   quiet test_db \<and>
   createDB \<lparr>supported = True, databases = [(''test-db'', test_db)]\<rparr> ''test-db'' 1 test_stores =
     (Inr (Resolved \<lparr>conn_name = ''test-db''\<rparr>),
      \<lparr>supported = True, databases = [(''test-db'', test_db\<lparr>connections := 2\<rparr>)]\<rparr>)"
proof -
  let ?h1 = "\<lparr>supported = True, databases = [(''test-db'', test_db)]\<rparr>"
  have first: "createDB fresh_host ''test-db'' 1 test_stores =
     (Inr (Resolved \<lparr>conn_name = ''test-db''\<rparr>), ?h1)"
    by (simp add: db_eval host_eval fresh_host_def test_stores_def test_db_def)
  have d1: "lookup_db ?h1 ''test-db'' = Some test_db" by (simp add: lookup_db_def)
  have q: "quiet test_db" by (simp add: quiet_def test_db_def)
  from seeding_idempotent[OF first d1 q]
  have "createDB ?h1 ''test-db'' 1 test_stores =
      (Inr (Resolved \<lparr>conn_name = ''test-db''\<rparr>),
       update_db ?h1 ''test-db'' (test_db\<lparr>connections := connections test_db + 1\<rparr>))"
    by (rule conjunct1)
  then have second: "createDB ?h1 ''test-db'' 1 test_stores =
     (Inr (Resolved \<lparr>conn_name = ''test-db''\<rparr>),
      \<lparr>supported = True, databases = [(''test-db'', test_db\<lparr>connections := 2\<rparr>)]\<rparr>)"
    by (simp add: update_db_def test_db_def)
  from first q second show ?thesis by (intro conjI)
qed

subsection \<open>IndexedDBUtil\<close>

lemma run_in_store_null:
  "db u = None \<Longrightarrow> run_in_store u h sn m ac operation = (Rejected not_initialized, h)"
  by (simp add: run_in_store_def getDB_def not_initialized_def)

lemma init_db:
  "db (fst (snd (init u h))) = (if fst (init u h) = Resolved () then db (fst (snd (init u h))) else db u) \<and>
   (fst (init u h) = Resolved () \<longrightarrow> db (fst (snd (init u h))) \<noteq> None)"
  by (auto simp: init_def split: prod.splits sum.splits promise.splits)

lemma step_handle:
  assumes "(db u = None) = (\<not> was)"
  shows "(db (fst (step c (u, h))) = None) = (\<not> initialized_after c (u, h) was)"
proof (cases c)
  case Init
  with assms init_db[of u h] show ?thesis by (cases "fst (init u h) = Resolved ()") auto
next
  case Close
  then show ?thesis by (simp add: close_def split: option.splits)
qed (use assms in simp_all)

lemma run_handle:
  "(db u = None) = (\<not> was) \<Longrightarrow>
   (db (fst (snd (run cs (was, u, h)))) = None) = (\<not> fst (run cs (was, u, h)))"
proof (induction cs arbitrary: was u h)
  case Nil
  then show ?case by simp
next
  case (Cons c cs)
  obtain u' h' where s: "step c (u, h) = (u', h')" by fastforce
  from step_handle[OF Cons.prems, of c h] s
  have "(db u' = None) = (\<not> initialized_after c (u, h) was)" by simp
  from Cons.IH[OF this] s show ?case by simp
qed

text \<open>
  C10. \<open>close\<close> leaves the handle null, and a second \<open>close\<close> changes nothing. While the
  handle is null, \<open>close\<close> is a no-op, \<open>getDB\<close>, \<open>transaction\<close> and every record method
  fail with the \<open>IndexedDBError\<close> "Database not initialized", and the host is left as it
  was. A new instance has a null handle, and after any sequence of calls on an instance
  that started with a null handle, the handle is null exactly when the instance has not
  been initialized or has been closed since.
\<close>

theorem handle_null_until_init:
  "db (fst (close u h)) = None \<and>
   close (fst (close u h)) (snd (close u h)) = close u h \<and>
   (db u = None \<longrightarrow>
      close u h = (u, h) \<and>
      getDB u = Inl not_initialized \<and>
      util_transaction u h storeNames m = Inl not_initialized \<and>
      get u h sn k = (Rejected not_initialized, h) \<and>
      getAll u h sn = (Rejected not_initialized, h) \<and>
      query u h sn options = (Rejected not_initialized, h) \<and>
      count u h sn rng = (Rejected not_initialized, h) \<and>
      add u h sn item = (Rejected not_initialized, h) \<and>
      put u h sn item = (Rejected not_initialized, h) \<and>
      bulkAdd u h sn dataArray = (Rejected not_initialized, h) \<and>
      update u h sn kp k newData = (Rejected not_initialized, h) \<and>
      delete u h sn k = (Rejected not_initialized, h) \<and>
      clear u h sn = (Rejected not_initialized, h)) \<and>
   db (new_IndexedDBUtil nm ver cfgs) = None \<and>
   (\<forall>cs. db u = None \<longrightarrow>
      (db (fst (snd (run cs (False, u, h)))) = None) = (\<not> fst (run cs (False, u, h))))"
proof (intro conjI allI impI)
  show "db (fst (close u h)) = None" by (simp add: close_def split: option.splits)
  show "close (fst (close u h)) (snd (close u h)) = close u h"
    by (simp add: close_def split: option.splits)
  show "db (new_IndexedDBUtil nm ver cfgs) = None" by (simp add: new_IndexedDBUtil_def)
next
  assume n: "db u = None"
  then show "close u h = (u, h)" by (simp add: close_def)
  from n show "getDB u = Inl not_initialized" by (simp add: getDB_def not_initialized_def)
  from n show "util_transaction u h storeNames m = Inl not_initialized"
    by (simp add: util_transaction_def getDB_def not_initialized_def)
  from n show "get u h sn k = (Rejected not_initialized, h)"
    by (simp add: get_def run_in_store_null)
  from n show "getAll u h sn = (Rejected not_initialized, h)"
    by (simp add: getAll_def run_in_store_null)
  from n show "query u h sn options = (Rejected not_initialized, h)"
    by (simp add: query_def run_in_store_null)
  from n show "count u h sn rng = (Rejected not_initialized, h)"
    by (simp add: count_def run_in_store_null)
  from n show "add u h sn item = (Rejected not_initialized, h)"
    by (simp add: add_def run_in_store_null)
  from n show "put u h sn item = (Rejected not_initialized, h)"
    by (simp add: put_def run_in_store_null)
  from n show "bulkAdd u h sn dataArray = (Rejected not_initialized, h)"
    by (simp add: bulkAdd_def run_in_store_null)
  from n show "update u h sn kp k newData = (Rejected not_initialized, h)"
    by (simp add: update_def run_in_store_null)
  from n show "delete u h sn k = (Rejected not_initialized, h)"
    by (simp add: delete_def run_in_store_null)
  from n show "clear u h sn = (Rejected not_initialized, h)"
    by (simp add: clear_def run_in_store_null)
next
  fix cs
  assume "db u = None"
  then have "(db u = None) = (\<not> False)" by simp
  from run_handle[OF this] show
    "(db (fst (snd (run cs (False, u, h)))) = None) = (\<not> fst (run cs (False, u, h)))" .
qed

theorem handle_null_until_init_witness:
  "db (new_IndexedDBUtil ''test-db'' 1 test_stores) = None \<and>
   getDB (new_IndexedDBUtil ''test-db'' 1 test_stores) = Inl not_initialized \<and>
   get (new_IndexedDBUtil ''test-db'' 1 test_stores) shop_host ''users'' (KNum 1) =
     (Rejected not_initialized, shop_host) \<and>
   delete (new_IndexedDBUtil ''test-db'' 1 test_stores) shop_host ''users'' (KNum 1) =
     (Rejected not_initialized, shop_host) \<and>
   fst (run [Init] (False, new_IndexedDBUtil ''test-db'' 1 test_stores, fresh_host)) \<and>
   db (fst (snd (run [Init] (False, new_IndexedDBUtil ''test-db'' 1 test_stores, fresh_host)))) \<noteq> None \<and>
   \<not> fst (run [Init, Close] (False, new_IndexedDBUtil ''test-db'' 1 test_stores, fresh_host)) \<and>
   db (fst (snd (run [Init, Close] (False, new_IndexedDBUtil ''test-db'' 1 test_stores, fresh_host)))) = None"
proof -
  let ?u = "new_IndexedDBUtil ''test-db'' 1 test_stores"
  have n: "db ?u = None" by (simp add: new_IndexedDBUtil_def)
  have i: "init ?u fresh_host =
      (Resolved (), ?u\<lparr>db := Some \<lparr>conn_name = ''test-db''\<rparr>\<rparr>,
       \<lparr>supported = True, databases = [(''test-db'', test_db)]\<rparr>)"
    by (simp add: init_def new_IndexedDBUtil_def db_eval host_eval fresh_host_def test_stores_def
        test_db_def)
  have r1: "fst (run [Init] (False, ?u, fresh_host))" by (simp add: i close_def del: One_nat_def)
  have r2: "\<not> fst (run [Init, Close] (False, ?u, fresh_host))" by (simp add: i close_def del: One_nat_def)
  note t = handle_null_until_init[of ?u]
  from t[of shop_host "[]" ReadOnly "''users''" "KNum 1"] n
  have a: "getDB ?u = Inl not_initialized"
    and b: "get ?u shop_host ''users'' (KNum 1) = (Rejected not_initialized, shop_host)"
    and c: "delete ?u shop_host ''users'' (KNum 1) = (Rejected not_initialized, shop_host)"
    by blast+
  from t[of fresh_host] n
  have inv: "\<forall>cs. (db (fst (snd (run cs (False, ?u, fresh_host)))) = None) =
      (\<not> fst (run cs (False, ?u, fresh_host)))"
    by blast
  from inv r1 have d: "db (fst (snd (run [Init] (False, ?u, fresh_host)))) \<noteq> None" by blast
  from inv r2 have e: "db (fst (snd (run [Init, Close] (False, ?u, fresh_host)))) = None" by blast
  from n a b c r1 d r2 e show ?thesis by (intro conjI)
qed

subsection \<open>The order of the records\<close>

text \<open>
  Every write request of the host keeps the records of a store in ascending key order,
  so that no two records share a key. The statements on \<open>deleteObjectData\<close> and \<open>updateObjectData\<close> assume a store in
  this state.
\<close>

lemma insert_entry_sorted:
  assumes "sorted_wrt key_less (map fst xs)" and "k \<notin> fst ` set xs"
  shows "sorted_wrt key_less (map fst (insert_entry (k, v) xs))"
  using assms
proof (induction xs)
  case Nil
  then show ?case by simp
next
  case (Cons y ys)
  show ?case
  proof (cases "key_less (fst y) k")
    case True
    with Cons show ?thesis by (auto simp: set_insert_entry)
  next
    case False
    with Cons.prems(2) key_less_total[of k "fst y"] have lt: "key_less k (fst y)" by auto
    with Cons.prems(1) have "\<forall>z \<in> set ys. key_less k (fst z)"
      by (auto intro: key_less_trans)
    with False lt Cons.prems(1) show ?thesis by simp
  qed
qed

lemma remove_key_sorted:
  "sorted_wrt key_less (map fst recs) \<Longrightarrow>
   sorted_wrt key_less (map fst (filter (\<lambda>kv. fst kv \<noteq> k) recs))"
  by (induction recs) auto

lemma put_record_sorted:
  assumes "sorted_wrt key_less (map fst recs)"
  shows "sorted_wrt key_less (map fst (put_record k v recs))"
proof -
  have "sorted_wrt key_less (map fst (filter (\<lambda>kv. fst kv \<noteq> k) recs))"
    using assms by (rule remove_key_sorted)
  moreover have "k \<notin> fst ` set (filter (\<lambda>kv. fst kv \<noteq> k) recs)" by auto
  ultimately show ?thesis unfolding put_record_def by (rule insert_entry_sorted)
qed

lemma store_with_key_sorted:
  "sorted_keys s \<Longrightarrow> sorted_keys (snd (store_with_key s k v ow))"
  by (auto simp: store_with_key_def sorted_keys_def abort_def put_record_sorted split: option.splits)

lemma sorted_keys_cong: "records s' = records s \<Longrightarrow> sorted_keys s' = sorted_keys s"
  by (simp add: sorted_keys_def)

lemma store_record_sorted:
  assumes "sorted_keys s"
  shows "sorted_keys (snd (store_record s ks item ow))"
proof (cases "pending_fault s")
  case (Some e)
  with assms show ?thesis
    by (simp add: store_record_def next_event_cases abort_def sorted_keys_def)
next
  case None
  show ?thesis
  proof (cases ks)
    case (Explicit k)
    have "sorted_keys (update_generator (s\<lparr>faults := tl (faults s)\<rparr>) k)"
      using assms by (simp add: sorted_keys_def)
    from store_with_key_sorted[OF this] None Explicit show ?thesis
      by (simp add: store_record_def next_event_cases)
  next
    case Generate
    have "sorted_keys (s\<lparr>faults := tl (faults s), keyGenerator := keyGenerator s + 1\<rparr>)"
      using assms by (simp add: sorted_keys_def)
    from store_with_key_sorted[OF this] None Generate assms show ?thesis
      by (simp add: store_record_def next_event_cases abort_def sorted_keys_def)
  qed
qed

lemma sorted_keys_imp_distinct: "sorted_keys s \<Longrightarrow> distinct_keys s"
  by (simp add: sorted_keys_def distinct_keys_def sorted_keys_distinct)

lemma write_requests_keep_order:
  assumes "sorted_keys s"
  shows "sorted_keys (snd (idb_add s item))" and "sorted_keys (snd (idb_put s item))"
    and "sorted_keys (snd (idb_delete s k))" and "sorted_keys (snd (idb_clear s))"
    and "sorted_keys (snd (cursor_update s k item))"
proof -
  show "sorted_keys (snd (idb_add s item))"
    using store_record_sorted[OF assms] assms by (simp add: idb_add_def split: sum.splits)
  show "sorted_keys (snd (idb_put s item))"
    using store_record_sorted[OF assms] assms by (simp add: idb_put_def split: sum.splits)
  have f: "sorted_wrt key_less (map fst (filter (\<lambda>kv. fst kv \<noteq> k) (records s)))"
    using assms unfolding sorted_keys_def by (rule remove_key_sorted)
  show "sorted_keys (snd (idb_delete s k))"
    using assms f by (cases "pending_fault s")
      (simp_all add: idb_delete_def next_event_cases abort_def sorted_keys_def)
  show "sorted_keys (snd (idb_clear s))"
    using assms by (cases "pending_fault s")
      (simp_all add: idb_clear_def next_event_cases abort_def sorted_keys_def)
  have "sorted_keys (s\<lparr>faults := tl (faults s)\<rparr>)" using assms by (simp add: sorted_keys_def)
  from store_with_key_sorted[OF this, of k item False] assms
  show "sorted_keys (snd (cursor_update s k item))"
    by (cases "pending_fault s")
      (auto simp: cursor_update_def next_event_cases abort_def sorted_keys_def split: option.splits)
qed

end
